theory Spec2Isabelle
  imports Complex_Main "HOL-Library.Multiset"
begin

section \<open>The dice-pot server (server.js): data model\<close>

text \<open>
  The server keeps one JavaScript object per lobby, one per seated player and one per
  socket. Handlers, timer callbacks and database callbacks hold references to these
  objects and mutate them in place, so the model keeps explicit stores: a lobby is
  addressed by a reference into \<open>lobby_heap\<close>, a player object by a reference into
  \<open>player_heap\<close>, a socket by its socket id. The global \<open>lobbies\<close> dictionary maps a
  lobby id to its reference; \<open>delete lobbies[id]\<close> removes the key and leaves the object
  to whatever closure still holds it.

  Callbacks run later: a \<open>setTimeout\<close> adds its closure to the pending \<open>timers\<close> with its
  due time, a \<open>db.run\<close> adds its statement and callback to \<open>pending_db\<close>, and a separate
  step fires a timer or completes a statement. Messages sent to clients are appended to
  \<open>outbox\<close>.

  Numbers that the server only ever adds, subtracts and compares (balances, bet, pot,
  dice) are integers in the model; JavaScript computes them exactly below \<open>2^53\<close>.
  \<open>Math.random()\<close> is a sequence of reals in \<open>[0,1)\<close> that the world consumes one by
  one, and the product \<open>Math.random() * n\<close> is taken exactly.
\<close>

type_synonym sid = string

datatype gstate = IDLE | BETTING | PLAYING | FINISHED

text \<open>An entry of \<open>lobby.users\<close>: \<open>{ id, nickname }\<close>.\<close>

record member =
  u_id :: sid
  u_nickname :: string

text \<open>An entry of \<open>lobby.players\<close>: \<open>{ id, nickname, lastRoll }\<close>; \<open>lastRoll\<close> is
  \<open>null\<close> or a number.\<close>

record player =
  p_id :: sid
  p_nickname :: string
  lastRoll :: "int option"

text \<open>\<open>socket.userData\<close> and the socket itself. \<open>connected\<close> says whether
  \<open>io.sockets.sockets.get(id)\<close> finds the socket. Every socket of the model has logged
  in: \<open>joinLobby\<close> reads \<open>socket.userData.nickname\<close>, so no other socket gets into a
  lobby.\<close>

record user_data =
  ud_id :: nat
  ud_nickname :: string
  balance :: int

record socket =
  connected :: bool
  userData :: user_data
  currentLobby :: "string option"

text \<open>The lobby object built by \<open>create_lobby\<close>. \<open>players\<close> holds references to
  player objects; \<open>timer\<close> is the handle of the last turn timer armed.\<close>

record lobby =
  lid :: string
  lname :: string
  roomHostId :: sid
  roomHostName :: string
  tableHostId :: "sid option"
  lastWinnerId :: "sid option"
  state :: gstate
  bet :: int
  pot :: int
  users :: "member list"
  players :: "nat list"
  turnOrder :: "sid list"
  turnIndex :: nat
  timer :: "nat option"

text \<open>What \<open>packLobbyData\<close> sends: the seated players are serialised with their current
  field values.\<close>

record packed =
  k_id :: string
  k_roomHostId :: sid
  k_tableHostId :: "sid option"
  k_lastWinnerId :: "sid option"
  k_state :: gstate
  k_bet :: int
  k_pot :: int
  k_users :: "member list"
  k_players :: "player list"
  k_currentTurn :: "sid option"

subsection \<open>Messages sent to clients\<close>

datatype target = To_socket sid | To_room string | To_all

datatype chat_nick = SYSTEM | GAME | TROPHY

text \<open>The chat texts are template strings; the model keeps the template and its
  arguments.\<close>

datatype chat_text =
    Table_opened int
  | Joined_the_table string
  | Game_started int
  | Rolled string "int option" int int
  | Won string int
  | Tie_round_2

datatype event =
    Error_msg string
  | Balance_update int
  | Update_room packed
  | Chat_msg chat_nick chat_text
  | Turn_notification sid string
  | Dice_rolled sid int int int
  | Game_over string int
  | Left_lobby_success
  | Lobby_list "(string \<times> string \<times> nat \<times> string) list"
  | Joined_lobby lobby "player list"

subsection \<open>Pending work: timers and database statements\<close>

text \<open>The closures handed to \<open>setTimeout\<close>: the auto-roll of \<open>processTurn\<close> (it holds the
  lobby and the player object), and the two of \<open>performRoll\<close>.\<close>

datatype cont =
    Auto_roll nat nat
  | Reveal nat nat int int
  | Advance nat

text \<open>The two \<open>UPDATE users\<close> statements and the callbacks given to \<open>db.run\<close>.\<close>

datatype db_op = Debit int nat | Credit int string

datatype db_cont = Sit_cb sid nat | Win_cb sid int

record db_row =
  row_id :: nat
  row_nickname :: string
  row_balance :: int

datatype js_error = TypeError

record world =
  lobbies :: "(string \<times> nat) list"
  lobby_heap :: "nat \<Rightarrow> lobby"
  next_lobby :: nat
  player_heap :: "nat \<Rightarrow> player"
  next_player :: nat
  sockets :: "sid \<Rightarrow> socket"
  db :: "db_row list"
  pending_db :: "(db_op \<times> db_cont) list"
  timers :: "(nat \<times> nat \<times> cont) list"
  next_timer :: nat
  now :: nat
  random :: "nat \<Rightarrow> real"
  random_pos :: nat
  outbox :: "(target \<times> event) list"

section \<open>Utilities\<close>

definition emit :: "target \<Rightarrow> event \<Rightarrow> world \<Rightarrow> world" where
  "emit t e w = w\<lparr>outbox := outbox w @ [(t, e)]\<rparr>"

definition set_lobby :: "nat \<Rightarrow> lobby \<Rightarrow> world \<Rightarrow> world" where
  "set_lobby lr l w = w\<lparr>lobby_heap := (lobby_heap w)(lr := l)\<rparr>"

text \<open>\<open>array[i]\<close>: \<open>undefined\<close> out of range.\<close>

definition nth_opt :: "'a list \<Rightarrow> nat \<Rightarrow> 'a option" where
  "nth_opt xs i = (if i < length xs then Some (xs ! i) else None)"

text \<open>\<open>lobbies[socket.currentLobby]\<close>: no lobby has the key of a \<open>null\<close> or unset
  \<open>currentLobby\<close>.\<close>

definition lookup_lobby :: "world \<Rightarrow> string option \<Rightarrow> nat option" where
  "lookup_lobby w cur = (case cur of None \<Rightarrow> None | Some i \<Rightarrow> map_of (lobbies w) i)"

text \<open>\<open>lobby.players.find(p => p.id === x)\<close>.\<close>

definition find_player :: "world \<Rightarrow> lobby \<Rightarrow> sid \<Rightarrow> nat option" where
  "find_player w l x = find (\<lambda>p. p_id (player_heap w p) = x) (players l)"

definition Math_random :: "world \<Rightarrow> real \<times> world" where
  "Math_random w = (random w (random_pos w), w\<lparr>random_pos := Suc (random_pos w)\<rparr>)"

text \<open>The contract of \<open>Math.random()\<close>: every draw lies in \<open>[0,1)\<close>.\<close>

definition random_ok :: "world \<Rightarrow> bool" where
  "random_ok w = (\<forall>k. 0 \<le> random w k \<and> random w k < 1)"

text \<open>\<open>getRandomInt(min, max)\<close>: \<open>Math.floor(Math.random() * (max - min + 1)) + min\<close>.\<close>

definition getRandomInt :: "int \<Rightarrow> int \<Rightarrow> world \<Rightarrow> int \<times> world" where
  "getRandomInt mn mx w =
     (case Math_random w of (r, w') \<Rightarrow> (\<lfloor>r * of_int (mx - mn + 1)\<rfloor> + mn, w'))"

text \<open>\<open>shuffle\<close>: \<open>for (i = length - 1; i > 0; i--)\<close>, swapping \<open>array[i]\<close> with
  \<open>array[j]\<close> for \<open>j = floor(random * (i + 1))\<close>. The destructuring assignment reads
  both cells first and writes \<open>array[i]\<close>, then \<open>array[j]\<close>. Under the contract of
  \<open>Math.random()\<close> the index \<open>j\<close> never exceeds \<open>i\<close>, so both cells exist.\<close>

fun shuffle_loop :: "nat \<Rightarrow> 'a list \<Rightarrow> world \<Rightarrow> 'a list \<times> world" where
  "shuffle_loop 0 array w = (array, w)"
| "shuffle_loop (Suc k) array w =
     (case Math_random w of (r, w') \<Rightarrow>
        (let i = Suc k; j = nat \<lfloor>r * real (i + 1)\<rfloor>
         in shuffle_loop k (array[i := array ! j, j := array ! i]) w'))"

definition shuffle :: "'a list \<Rightarrow> world \<Rightarrow> 'a list \<times> world" where
  "shuffle array w = shuffle_loop (length array - 1) array w"

text \<open>\<open>setTimeout(f, ms)\<close> and \<open>clearTimeout(handle)\<close>; a handle is the number of the
  timer.\<close>

definition setTimeout :: "cont \<Rightarrow> nat \<Rightarrow> world \<Rightarrow> nat \<times> world" where
  "setTimeout c ms w =
     (next_timer w,
      w\<lparr>timers := timers w @ [(next_timer w, now w + ms, c)], next_timer := Suc (next_timer w)\<rparr>)"

definition clearTimeout :: "nat \<Rightarrow> world \<Rightarrow> world" where
  "clearTimeout t w = w\<lparr>timers := filter (\<lambda>e. fst e \<noteq> t) (timers w)\<rparr>"

text \<open>\<open>if (lobby.timer) clearTimeout(lobby.timer)\<close>.\<close>

definition clear_lobby_timer :: "nat \<Rightarrow> world \<Rightarrow> world" where
  "clear_lobby_timer lr w =
     (case timer (lobby_heap w lr) of None \<Rightarrow> w | Some t \<Rightarrow> clearTimeout t w)"

definition packLobbyData :: "world \<Rightarrow> lobby \<Rightarrow> packed" where
  "packLobbyData w l =
     \<lparr>k_id = lid l, k_roomHostId = roomHostId l, k_tableHostId = tableHostId l,
      k_lastWinnerId = lastWinnerId l, k_state = state l, k_bet = bet l, k_pot = pot l,
      k_users = users l, k_players = map (player_heap w) (players l),
      k_currentTurn = (if state l = PLAYING then nth_opt (turnOrder l) (turnIndex l) else None)\<rparr>"

definition update_room :: "nat \<Rightarrow> world \<Rightarrow> world" where
  "update_room lr w =
     emit (To_room (lid (lobby_heap w lr))) (Update_room (packLobbyData w (lobby_heap w lr))) w"

definition sendLobbyList :: "target \<Rightarrow> world \<Rightarrow> world" where
  "sendLobbyList t w =
     emit t (Lobby_list (map (\<lambda>(i, lr). (lid (lobby_heap w lr), lname (lobby_heap w lr),
                                          length (users (lobby_heap w lr)),
                                          roomHostName (lobby_heap w lr))) (lobbies w))) w"

section \<open>Seating\<close>

text \<open>\<open>sitAtTable(socket, lobby)\<close> up to the call of \<open>db.run\<close>: the two guards, then the
  debit statement is handed to the database with its callback. Nothing else happens
  before the callback runs.\<close>

definition sitAtTable :: "sid \<Rightarrow> nat \<Rightarrow> world \<Rightarrow> world" where
  "sitAtTable s lr w =
     (let lobby = lobby_heap w lr; ud = userData (sockets w s) in
      if find_player w lobby s \<noteq> None then w
      else if balance ud < bet lobby then emit (To_socket s) (Error_msg ''Insufficient funds'') w
      else w\<lparr>pending_db := pending_db w @ [(Debit (bet lobby) (ud_id ud), Sit_cb s lr)]\<rparr>)"

text \<open>The callback of the debit, \<open>(err) => { if (err) return; ... }\<close>. It reads
  \<open>lobby.bet\<close> when it runs and builds a fresh player object.\<close>

definition sit_callback :: "bool \<Rightarrow> sid \<Rightarrow> nat \<Rightarrow> world \<Rightarrow> world" where
  "sit_callback err s lr w =
     (if err then w
      else
        let sock = sockets w s; ud = userData sock;
            bal = balance ud - bet (lobby_heap w lr);
            w1 = w\<lparr>sockets := (sockets w)(s := sock\<lparr>userData := ud\<lparr>balance := bal\<rparr>\<rparr>)\<rparr>;
            w2 = emit (To_socket s) (Balance_update bal) w1;
            lobby = lobby_heap w2 lr;
            r = next_player w2;
            w3 = w2\<lparr>player_heap := (player_heap w2)
                       (r := \<lparr>p_id = s, p_nickname = ud_nickname ud, lastRoll = None\<rparr>),
                    next_player := Suc r\<rparr>;
            w4 = set_lobby lr (lobby\<lparr>pot := pot lobby + bet lobby, players := players lobby @ [r]\<rparr>) w3;
            w5 = update_room lr w4
        in emit (To_room (lid lobby)) (Chat_msg SYSTEM (Joined_the_table (ud_nickname ud))) w5)"

text \<open>\<open>socket.on('join_table', ...)\<close>.\<close>

definition join_table :: "sid \<Rightarrow> world \<Rightarrow> world" where
  "join_table s w =
     (case lookup_lobby w (currentLobby (sockets w s)) of
        None \<Rightarrow> w
      | Some lr \<Rightarrow> if state (lobby_heap w lr) \<noteq> BETTING then w else sitAtTable s lr w)"

section \<open>The turn engine\<close>

text \<open>\<open>processTurn(lobby)\<close>: \<open>if (!player) return;\<close> leaves everything as it is.\<close>

definition processTurn :: "nat \<Rightarrow> world \<Rightarrow> world" where
  "processTurn lr w =
     (let lobby = lobby_heap w lr in
      case nth_opt (turnOrder lobby) (turnIndex lobby) of
        None \<Rightarrow> w
      | Some playerId \<Rightarrow>
         (case find_player w lobby playerId of
            None \<Rightarrow> w
          | Some player \<Rightarrow>
             (let w1 = emit (To_room (lid lobby))
                         (Turn_notification playerId (p_nickname (player_heap w player))) w;
                  w2 = clear_lobby_timer lr w1
              in case setTimeout (Auto_roll lr player) 10000 w2 of
                   (t, w3) \<Rightarrow> set_lobby lr ((lobby_heap w3 lr)\<lparr>timer := Some t\<rparr>) w3)))"

text \<open>\<open>lobby.players.forEach(p => { if (lobby.turnOrder.includes(p.id)) p.lastRoll = null; })\<close>.\<close>

definition reset_rolls :: "sid list \<Rightarrow> nat list \<Rightarrow> (nat \<Rightarrow> player) \<Rightarrow> (nat \<Rightarrow> player)" where
  "reset_rolls order ps h =
     fold (\<lambda>p g. if p_id (g p) \<in> set order then g(p := (g p)\<lparr>lastRoll := None\<rparr>) else g) ps h"

text \<open>\<open>startGame(lobby, participants)\<close>.\<close>

definition startGame :: "nat \<Rightarrow> nat list \<Rightarrow> world \<Rightarrow> world" where
  "startGame lr participants w =
     (let w1 = set_lobby lr ((lobby_heap w lr)\<lparr>state := PLAYING\<rparr>) w in
      case shuffle (map (\<lambda>p. p_id (player_heap w1 p)) participants) w1 of
        (order, w2) \<Rightarrow>
          (let w3 = set_lobby lr ((lobby_heap w2 lr)
                      \<lparr>turnOrder := order, turnIndex := 0, lastWinnerId := None\<rparr>) w2;
               w4 = w3\<lparr>player_heap :=
                         reset_rolls order (players (lobby_heap w3 lr)) (player_heap w3)\<rparr>;
               w5 = update_room lr w4;
               w6 = emit (To_room (lid (lobby_heap w5 lr)))
                      (Chat_msg SYSTEM (Game_started (pot (lobby_heap w5 lr)))) w5
           in processTurn lr w6))"

text \<open>\<open>socket.on('start_game', ...)\<close>.\<close>

definition start_game :: "sid \<Rightarrow> world \<Rightarrow> world" where
  "start_game s w =
     (case lookup_lobby w (currentLobby (sockets w s)) of
        None \<Rightarrow> w
      | Some lr \<Rightarrow>
         (let lobby = lobby_heap w lr in
          if tableHostId lobby \<noteq> Some s \<or> state lobby \<noteq> BETTING then w
          else if length (players lobby) < 2
            then emit (To_socket s) (Error_msg ''Need at least 2 players'') w
          else startGame lr (players lobby) w))"

section \<open>Resolution\<close>

text \<open>A \<open>lastRoll\<close> used as a number by the comparison \<^verbatim>\<open>>\<close>: \<open>null\<close> converts to \<open>0\<close>.\<close>

definition js_num :: "int option \<Rightarrow> int" where
  "js_num v = (case v of None \<Rightarrow> 0 | Some n \<Rightarrow> n)"

text \<open>\<open>let highest = -1; participants.forEach(p => { if (p.lastRoll > highest) highest = p.lastRoll; })\<close>.\<close>

definition highest_roll :: "(nat \<Rightarrow> player) \<Rightarrow> nat list \<Rightarrow> int option" where
  "highest_roll h participants =
     fold (\<lambda>p hi. if js_num (lastRoll (h p)) > js_num hi then lastRoll (h p) else hi)
          participants (Some (- 1))"

definition participants_of :: "world \<Rightarrow> lobby \<Rightarrow> nat list" where
  "participants_of w l = filter (\<lambda>p. p_id (player_heap w p) \<in> set (turnOrder l)) (players l)"

text \<open>\<open>participants.filter(p => p.lastRoll === highest)\<close>.\<close>

definition winners_of :: "world \<Rightarrow> lobby \<Rightarrow> nat list" where
  "winners_of w l =
     filter (\<lambda>p. lastRoll (player_heap w p) = highest_roll (player_heap w) (participants_of w l))
            (participants_of w l)"

text \<open>The callback of the credit: it ignores \<open>err\<close> and updates the cached balance of the
  winner's socket when that socket is still connected.\<close>

definition win_callback :: "sid \<Rightarrow> int \<Rightarrow> world \<Rightarrow> world" where
  "win_callback wid winAmount w =
     (let sock = sockets w wid in
      if connected sock then
        (let bal = balance (userData sock) + winAmount;
             w1 = w\<lparr>sockets := (sockets w)(wid := sock\<lparr>userData := (userData sock)\<lparr>balance := bal\<rparr>\<rparr>)\<rparr>
         in emit (To_socket wid) (Balance_update bal) w1)
      else w)"

text \<open>\<open>determineWinner(lobby)\<close>: \<open>winners.length === 1\<close> is the first case.\<close>

definition determineWinner :: "nat \<Rightarrow> world \<Rightarrow> world" where
  "determineWinner lr w =
     (let lobby = lobby_heap w lr in
      case winners_of w lobby of
        [winner] \<Rightarrow>
          (let wp = player_heap w winner;
               winAmount = pot lobby;
               w1 = set_lobby lr (lobby\<lparr>lastWinnerId := Some (p_id wp)\<rparr>) w;
               w2 = w1\<lparr>pending_db := pending_db w1 @
                          [(Credit winAmount (p_nickname wp), Win_cb (p_id wp) winAmount)]\<rparr>;
               w3 = emit (To_room (lid lobby)) (Game_over (p_nickname wp) winAmount) w2;
               w4 = emit (To_room (lid lobby)) (Chat_msg TROPHY (Won (p_nickname wp) winAmount)) w3;
               l4 = lobby_heap w4 lr;
               w5 = set_lobby lr (l4\<lparr>state := FINISHED,
                       players := filter (\<lambda>p. Some (p_id (player_heap w4 p)) = tableHostId l4
                                             \<or> p_id (player_heap w4 p) = p_id wp) (players l4),
                       pot := 0\<rparr>) w4
           in update_room lr w5)
      | winners \<Rightarrow>
          startGame lr winners (emit (To_room (lid lobby)) (Chat_msg SYSTEM Tie_round_2) w))"

section \<open>Rolling\<close>

text \<open>The second timer of \<open>performRoll\<close> (3.5 s): \<open>lobby.turnIndex++\<close>, then the winner is
  determined or the next turn begins.\<close>

definition advance :: "nat \<Rightarrow> world \<Rightarrow> world" where
  "advance lr w =
     (let w1 = set_lobby lr ((lobby_heap w lr)\<lparr>turnIndex := Suc (turnIndex (lobby_heap w lr))\<rparr>) w in
      if turnIndex (lobby_heap w1 lr) \<ge> length (turnOrder (lobby_heap w1 lr))
      then determineWinner lr w1 else processTurn lr w1)"

text \<open>The first timer of \<open>performRoll\<close> (1.5 s): the chat line and the room update.\<close>

definition reveal :: "nat \<Rightarrow> nat \<Rightarrow> int \<Rightarrow> int \<Rightarrow> world \<Rightarrow> world" where
  "reveal lr player d1 d2 w =
     update_room lr
       (emit (To_room (lid (lobby_heap w lr)))
          (Chat_msg GAME (Rolled (p_nickname (player_heap w player))
                                 (lastRoll (player_heap w player)) d1 d2)) w)"

text \<open>\<open>performRoll(lobby, player, isAuto)\<close> for a player object that exists.\<close>

definition performRoll :: "nat \<Rightarrow> nat \<Rightarrow> bool \<Rightarrow> world \<Rightarrow> world" where
  "performRoll lr player isAuto w =
     (let w1 = clear_lobby_timer lr w in
      case getRandomInt 1 6 w1 of (d1, w2) \<Rightarrow>
      case getRandomInt 1 6 w2 of (d2, w3) \<Rightarrow>
        (let w4 = w3\<lparr>player_heap := (player_heap w3)
                        (player := (player_heap w3 player)\<lparr>lastRoll := Some (d1 + d2)\<rparr>)\<rparr>;
             w5 = emit (To_room (lid (lobby_heap w4 lr)))
                    (Dice_rolled (p_id (player_heap w4 player)) d1 d2 (d1 + d2)) w4;
             w6 = snd (setTimeout (Reveal lr player d1 d2) 1500 w5)
         in snd (setTimeout (Advance lr) 3500 w6)))"

text \<open>\<open>socket.on('roll_dice', ...)\<close>. When the requester is on turn and not seated,
  \<open>player\<close> is \<open>undefined\<close> and \<open>performRoll\<close> throws at \<open>player.lastRoll = ...\<close>.\<close>

definition roll_dice :: "sid \<Rightarrow> world \<Rightarrow> js_error + world" where
  "roll_dice s w =
     (case lookup_lobby w (currentLobby (sockets w s)) of
        None \<Rightarrow> Inr w
      | Some lr \<Rightarrow>
         (let lobby = lobby_heap w lr in
          if state lobby \<noteq> PLAYING then Inr w
          else if nth_opt (turnOrder lobby) (turnIndex lobby) \<noteq> Some s then Inr w
          else case find_player w lobby s of
                 None \<Rightarrow> Inl TypeError
               | Some player \<Rightarrow> Inr (performRoll lr player False w)))"

text \<open>A timer fires: it leaves the pending timers and its closure runs. \<open>elapse\<close> lets
  time pass.\<close>

definition run_cont :: "cont \<Rightarrow> world \<Rightarrow> world" where
  "run_cont c w =
     (case c of
        Auto_roll lr player \<Rightarrow> performRoll lr player True w
      | Reveal lr player d1 d2 \<Rightarrow> reveal lr player d1 d2 w
      | Advance lr \<Rightarrow> advance lr w)"

definition fire_timer :: "nat \<Rightarrow> world \<Rightarrow> world" where
  "fire_timer t w =
     (case find (\<lambda>e. fst e = t) (timers w) of
        None \<Rightarrow> w
      | Some e \<Rightarrow>
          run_cont (snd (snd e))
            (w\<lparr>timers := filter (\<lambda>e. fst e \<noteq> t) (timers w), now := max (now w) (fst (snd e))\<rparr>))"

definition elapse :: "nat \<Rightarrow> world \<Rightarrow> world" where
  "elapse d w = w\<lparr>now := now w + d\<rparr>"

section \<open>Opening a table\<close>

text \<open>
  \<open>parseInt(amount)\<close> with no radix, on the string \<open>ToString(amount)\<close> (the first step
  of \<open>parseInt\<close>; a client that sends the number \<open>2.5\<close> is parsed as the string
  \<open>2.5\<close>): leading white space is dropped, then an optional sign, then an optional
  \<open>0x\<close> or \<open>0X\<close> that selects radix 16, and the longest prefix of digits of the radix
  is read. \<open>None\<close> is \<open>NaN\<close> (no digit). Strings are made of the code units below 256,
  of which 9 to 13, 32 and 160 are white space; the value is exact, where JavaScript
  rounds above \<open>2^53\<close>.
\<close>

definition is_space :: "char \<Rightarrow> bool" where
  "is_space c = ((of_char c :: nat) \<in> {9, 10, 11, 12, 13, 32, 160})"

definition digit_val :: "char \<Rightarrow> nat option" where
  "digit_val c =
     (let n = (of_char c :: nat) in
      if 48 \<le> n \<and> n \<le> 57 then Some (n - 48)
      else if 97 \<le> n \<and> n \<le> 122 then Some (n - 87)
      else if 65 \<le> n \<and> n \<le> 90 then Some (n - 55)
      else None)"

definition is_digit :: "nat \<Rightarrow> char \<Rightarrow> bool" where
  "is_digit R c = (case digit_val c of None \<Rightarrow> False | Some d \<Rightarrow> d < R)"

definition digits_value :: "nat \<Rightarrow> string \<Rightarrow> nat" where
  "digits_value R z = foldl (\<lambda>acc c. acc * R + (case digit_val c of None \<Rightarrow> 0 | Some d \<Rightarrow> d)) 0 z"

definition strip_sign :: "string \<Rightarrow> int \<times> string" where
  "strip_sign s =
     (case s of
        [] \<Rightarrow> (1, s)
      | c # cs \<Rightarrow> if c = CHR ''-'' then (- 1, cs) else if c = CHR ''+'' then (1, cs) else (1, s))"

definition strip_prefix :: "string \<Rightarrow> nat \<times> string" where
  "strip_prefix s =
     (case s of
        a # b # cs \<Rightarrow>
          if a = CHR ''0'' \<and> (b = CHR ''x'' \<or> b = CHR ''X'') then (16, cs) else (10, s)
      | _ \<Rightarrow> (10, s))"

definition parseInt :: "string \<Rightarrow> int option" where
  "parseInt inputString =
     (case strip_sign (dropWhile is_space inputString) of (sign, s1) \<Rightarrow>
      case strip_prefix s1 of (R, s2) \<Rightarrow>
        (let z = takeWhile (is_digit R) s2
         in if z = [] then None else Some (sign * int (digits_value R z))))"

text \<open>\<open>lobby.tableHostId && ...\<close>: \<open>null\<close> and the empty string are falsy.\<close>

definition truthy :: "string option \<Rightarrow> bool" where
  "truthy v = (case v of None \<Rightarrow> False | Some x \<Rightarrow> x \<noteq> [])"

text \<open>\<open>socket.on('host_set_bet', (amount) => ...)\<close>; \<open>amount\<close> is given as
  \<open>ToString(amount)\<close>.\<close>

definition host_set_bet :: "sid \<Rightarrow> string \<Rightarrow> world \<Rightarrow> world" where
  "host_set_bet s amount w =
     (case lookup_lobby w (currentLobby (sockets w s)) of
        None \<Rightarrow> w
      | Some lr \<Rightarrow>
         (let lobby = lobby_heap w lr in
          if state lobby = PLAYING then emit (To_socket s) (Error_msg ''Game in progress'') w
          else if truthy (tableHostId lobby) \<and> tableHostId lobby \<noteq> Some s
                  \<and> state lobby \<noteq> IDLE \<and> state lobby \<noteq> FINISHED
            then emit (To_socket s) (Error_msg ''Table occupied'') w
          else
            (case parseInt amount of
               None \<Rightarrow> emit (To_socket s) (Error_msg ''Invalid bet'') w
             | Some n \<Rightarrow>
                 if n \<le> 0 then emit (To_socket s) (Error_msg ''Invalid bet'') w
                 else
                   (let w1 = set_lobby lr (lobby\<lparr>bet := n, state := BETTING, tableHostId := Some s,
                                                 players := [], pot := 0, lastWinnerId := None\<rparr>) w;
                        w2 = sitAtTable s lr w1
                    in emit (To_room (lid (lobby_heap w2 lr))) (Chat_msg SYSTEM (Table_opened n)) w2))))"

section \<open>Leaving\<close>

text \<open>The body of \<open>if (lobby) { ... }\<close> in \<open>leaveLobby\<close>, on the lobby object.\<close>

definition leave_repair :: "(nat \<Rightarrow> player) \<Rightarrow> sid \<Rightarrow> lobby \<Rightarrow> lobby" where
  "leave_repair h s lobby =
     (let l1 = lobby\<lparr>users := filter (\<lambda>u. u_id u \<noteq> s) (users lobby),
                     players := filter (\<lambda>p. p_id (h p) \<noteq> s) (players lobby)\<rparr>;
          l2 = (case users l1 of
                  u # us \<Rightarrow> if roomHostId l1 = s
                            then l1\<lparr>roomHostId := u_id u, roomHostName := u_nickname u\<rparr> else l1
                | [] \<Rightarrow> l1)
      in if tableHostId l2 = Some s then
           (case players l2 of
              p # ps \<Rightarrow> l2\<lparr>tableHostId := Some (p_id (h p))\<rparr>
            | [] \<Rightarrow> if users l2 \<noteq> [] then l2\<lparr>tableHostId := None, state := IDLE, bet := 0\<rparr> else l2)
         else l2)"

text \<open>\<open>leaveLobby(socket)\<close>. \<open>if (!id) return;\<close> returns on \<open>null\<close> and on the empty
  string.\<close>

definition leaveLobby :: "sid \<Rightarrow> world \<Rightarrow> world" where
  "leaveLobby s w =
     (case currentLobby (sockets w s) of
        None \<Rightarrow> w
      | Some i \<Rightarrow>
         if i = [] then w
         else
           (let w1 = (case map_of (lobbies w) i of
                        None \<Rightarrow> w
                      | Some lr \<Rightarrow>
                         (let w' = set_lobby lr (leave_repair (player_heap w) s (lobby_heap w lr)) w in
                          if users (lobby_heap w' lr) = []
                          then w'\<lparr>lobbies := filter (\<lambda>e. fst e \<noteq> i) (lobbies w')\<rparr>
                          else emit (To_room i) (Update_room (packLobbyData w' (lobby_heap w' lr))) w'));
                w2 = w1\<lparr>sockets := (sockets w1)(s := (sockets w1 s)\<lparr>currentLobby := None\<rparr>)\<rparr>;
                w3 = emit (To_socket s) Left_lobby_success w2
            in sendLobbyList To_all w3))"

text \<open>\<open>socket.on('leave_lobby', ...)\<close>: refused for a seated requester.\<close>

definition leave_lobby :: "sid \<Rightarrow> world \<Rightarrow> world" where
  "leave_lobby s w =
     (case lookup_lobby w (currentLobby (sockets w s)) of
        None \<Rightarrow> leaveLobby s w
      | Some lr \<Rightarrow>
          if find_player w (lobby_heap w lr) s \<noteq> None
          then emit (To_socket s) (Error_msg ''You cannot leave while seated at the table!'') w
          else leaveLobby s w)"

text \<open>\<open>socket.on('disconnect', () => leaveLobby(socket))\<close>; the socket has left
  \<open>io.sockets.sockets\<close> when the handler runs.\<close>

definition disconnect :: "sid \<Rightarrow> world \<Rightarrow> world" where
  "disconnect s w =
     leaveLobby s (w\<lparr>sockets := (sockets w)(s := (sockets w s)\<lparr>connected := False\<rparr>)\<rparr>)"

section \<open>Creating and joining a lobby\<close>

text \<open>\<open>lobbies[id] = value\<close>: an existing key keeps its place.\<close>

definition dict_set :: "string \<Rightarrow> nat \<Rightarrow> (string \<times> nat) list \<Rightarrow> (string \<times> nat) list" where
  "dict_set k v xs =
     (if map_of xs k = None then xs @ [(k, v)]
      else map (\<lambda>e. if fst e = k then (k, v) else e) xs)"

text \<open>\<open>joinLobby(socket, id)\<close>. The lobby object is looked up before the requester leaves
  the lobby it is in, and is used afterwards even if that removed it from \<open>lobbies\<close>.\<close>

definition joinLobby :: "sid \<Rightarrow> string \<Rightarrow> world \<Rightarrow> world" where
  "joinLobby s i w =
     (case map_of (lobbies w) i of
        None \<Rightarrow> emit (To_socket s) (Error_msg ''Lobby not found'') w
      | Some lr \<Rightarrow>
         (let w1 = (if truthy (currentLobby (sockets w s)) then leaveLobby s w else w);
              w2 = w1\<lparr>sockets := (sockets w1)(s := (sockets w1 s)\<lparr>currentLobby := Some i\<rparr>)\<rparr>;
              nick = ud_nickname (userData (sockets w2 s));
              l = lobby_heap w2 lr;
              l1 = l\<lparr>users := users l @ [\<lparr>u_id = s, u_nickname = nick\<rparr>]\<rparr>;
              l2 = (if find (\<lambda>u. u_id u = roomHostId l1) (users l1) = None
                    then l1\<lparr>roomHostId := s, roomHostName := nick\<rparr> else l1);
              w3 = set_lobby lr l2 w2;
              w4 = emit (To_socket s) (Joined_lobby l2 (map (player_heap w3) (players l2))) w3;
              w5 = emit (To_room i) (Update_room (packLobbyData w4 l2)) w4
          in sendLobbyList To_all w5))"

text \<open>\<open>socket.on('create_lobby', (name) => ...)\<close> for an authenticated socket. The id is
  \<open>room_\<close> followed by five characters computed from one draw of \<open>Math.random()\<close>; the
  model consumes the draw and takes the resulting id \<open>i\<close> as given. The default name is
  the nickname followed by \<open>'s Room\<close>.\<close>

definition create_lobby :: "sid \<Rightarrow> string \<Rightarrow> string \<Rightarrow> world \<Rightarrow> world" where
  "create_lobby s name i w =
     (case Math_random w of
        (r, w0) \<Rightarrow>
          (let nick = ud_nickname (userData (sockets w0 s));
               lr = next_lobby w0;
               l = \<lparr>lid = i,
                    lname = (if name = [] then nick @ CHR 0x27 # ''s Room'' else name),
                    roomHostId = s, roomHostName = nick, tableHostId = None,
                    lastWinnerId = None, state = IDLE, bet = 0, pot = 0, users = [],
                    players = [], turnOrder = [], turnIndex = 0, timer = None\<rparr>;
               w1 = w0\<lparr>lobby_heap := (lobby_heap w0)(lr := l), next_lobby := Suc lr,
                       lobbies := dict_set i lr (lobbies w0)\<rparr>
           in joinLobby s i w1))"

text \<open>\<open>socket.on('get_lobbies', () => sendLobbyList(socket))\<close>.\<close>

definition get_lobbies :: "sid \<Rightarrow> world \<Rightarrow> world" where
  "get_lobbies s w = sendLobbyList (To_socket s) w"

section \<open>The database answers\<close>

fun apply_db_op :: "db_op \<Rightarrow> db_row list \<Rightarrow> db_row list" where
  "apply_db_op (Debit amount i) rows =
     map (\<lambda>r. if row_id r = i then r\<lparr>row_balance := row_balance r - amount\<rparr> else r) rows"
| "apply_db_op (Credit amount n) rows =
     map (\<lambda>r. if row_nickname r = n then r\<lparr>row_balance := row_balance r + amount\<rparr> else r) rows"

definition run_db_cont :: "bool \<Rightarrow> db_cont \<Rightarrow> world \<Rightarrow> world" where
  "run_db_cont err c w =
     (case c of Sit_cb s lr \<Rightarrow> sit_callback err s lr w | Win_cb wid a \<Rightarrow> win_callback wid a w)"

text \<open>The \<open>k\<close>-th pending statement completes, with or without an error; without one
  the rows are updated. Then its callback runs.\<close>

definition db_complete :: "nat \<Rightarrow> bool \<Rightarrow> world \<Rightarrow> world" where
  "db_complete k err w =
     (case nth_opt (pending_db w) k of
        None \<Rightarrow> w
      | Some e \<Rightarrow>
          run_db_cont err (snd e)
            (w\<lparr>pending_db := take k (pending_db w) @ drop (Suc k) (pending_db w),
               db := (if err then db w else apply_db_op (fst e) (db w))\<rparr>))"

section \<open>One step of the server\<close>

text \<open>The events the server reacts to: the client messages that concern lobbies and the
  game, a disconnect, a timer that fires, a database statement that completes, and
  time passing. (\<open>auth\<close> and \<open>send_msg\<close> touch neither lobbies nor players.)\<close>

datatype action =
    Create_lobby sid string string
  | Join_lobby sid string
  | Get_lobbies sid
  | Host_set_bet sid string
  | Join_table sid
  | Start_game sid
  | Roll_dice sid
  | Leave_lobby sid
  | Disconnect sid
  | Fire nat
  | Db_complete nat bool
  | Elapse nat

definition step :: "action \<Rightarrow> world \<Rightarrow> js_error + world" where
  "step a w =
     (case a of
        Create_lobby s name i \<Rightarrow> Inr (create_lobby s name i w)
      | Join_lobby s i \<Rightarrow> Inr (joinLobby s i w)
      | Get_lobbies s \<Rightarrow> Inr (get_lobbies s w)
      | Host_set_bet s amount \<Rightarrow> Inr (host_set_bet s amount w)
      | Join_table s \<Rightarrow> Inr (join_table s w)
      | Start_game s \<Rightarrow> Inr (start_game s w)
      | Roll_dice s \<Rightarrow> roll_dice s w
      | Leave_lobby s \<Rightarrow> Inr (leave_lobby s w)
      | Disconnect s \<Rightarrow> Inr (disconnect s w)
      | Fire t \<Rightarrow> Inr (fire_timer t w)
      | Db_complete k err \<Rightarrow> Inr (db_complete k err w)
      | Elapse d \<Rightarrow> Inr (elapse d w))"

section \<open>Auxiliary definitions for the statements\<close>

text \<open>The index \<open>j\<close> drawn by \<open>shuffle\<close> at position \<open>i = k + 1\<close>, and the turn order
  \<open>startGame\<close> computes.\<close>

definition swap_index :: "world \<Rightarrow> nat \<Rightarrow> nat" where
  "swap_index w k = nat \<lfloor>random w (random_pos w) * real (Suc (Suc k))\<rfloor>"

definition start_order :: "nat list \<Rightarrow> world \<Rightarrow> sid list" where
  "start_order participants w = fst (shuffle (map (\<lambda>p. p_id (player_heap w p)) participants) w)"

text \<open>A concrete world: one lobby with Ann (table host) and Bob seated, bet 50, pot 100,
  a round in progress with Ann on turn.\<close>

definition demo_players :: "nat \<Rightarrow> player" where
  "demo_players =
     (\<lambda>_. \<lparr>p_id = [], p_nickname = [], lastRoll = None\<rparr>)
       (0 := \<lparr>p_id = ''sockA'', p_nickname = ''Ann_Lee'', lastRoll = Some 9\<rparr>,
        1 := \<lparr>p_id = ''sockB'', p_nickname = ''Bob_Ray'', lastRoll = Some 7\<rparr>)"

definition demo_lobby :: lobby where
  "demo_lobby =
     \<lparr>lid = ''room_1'', lname = ''Room'', roomHostId = ''sockA'', roomHostName = ''Ann_Lee'',
      tableHostId = Some ''sockA'', lastWinnerId = None, state = PLAYING, bet = 50, pot = 100,
      users = [\<lparr>u_id = ''sockA'', u_nickname = ''Ann_Lee''\<rparr>,
               \<lparr>u_id = ''sockB'', u_nickname = ''Bob_Ray''\<rparr>],
      players = [0, 1], turnOrder = [''sockA'', ''sockB''], turnIndex = 0, timer = None\<rparr>"

definition demo_sockets :: "sid \<Rightarrow> socket" where
  "demo_sockets =
     (\<lambda>_. \<lparr>connected = False,
            userData = \<lparr>ud_id = 0, ud_nickname = [], balance = 0\<rparr>, currentLobby = None\<rparr>)
       (''sockA'' := \<lparr>connected = True,
            userData = \<lparr>ud_id = 1, ud_nickname = ''Ann_Lee'', balance = 950\<rparr>,
            currentLobby = Some ''room_1''\<rparr>,
        ''sockB'' := \<lparr>connected = True,
            userData = \<lparr>ud_id = 2, ud_nickname = ''Bob_Ray'', balance = 950\<rparr>,
            currentLobby = Some ''room_1''\<rparr>)"

definition demo_world :: world where
  "demo_world =
     \<lparr>lobbies = [(''room_1'', 0)], lobby_heap = (\<lambda>_. demo_lobby), next_lobby = 1,
      player_heap = demo_players,
      next_player = 2, sockets = demo_sockets,
      db = [\<lparr>row_id = 1, row_nickname = ''Ann_Lee'', row_balance = 950\<rparr>,
            \<lparr>row_id = 2, row_nickname = ''Bob_Ray'', row_balance = 950\<rparr>],
      pending_db = [], timers = [], next_timer = 0, now = 0,
      random = (\<lambda>_. 1 / 2), random_pos = 0, outbox = []\<rparr>"



text \<open>The round of \<open>demo_world\<close> after Bob has disconnected and Ann's roll has advanced
  the turn index to Bob's entry.\<close>

definition gone_world :: world where
  "gone_world =
     demo_world
       \<lparr>lobby_heap := (\<lambda>_. demo_lobby\<lparr>users := [\<lparr>u_id = ''sockA'', u_nickname = ''Ann_Lee''\<rparr>],
                                        players := [0], turnIndex := 1\<rparr>)\<rparr>"

text \<open>A table at bet 50 where only Ann, the table host, is seated (pot 50); Bob is a
  member of the lobby and not seated.\<close>

definition solo_world :: world where
  "solo_world =
     demo_world
       \<lparr>lobby_heap := (\<lambda>_. demo_lobby\<lparr>state := BETTING, pot := 50, players := [0],
                                        turnOrder := []\<rparr>)\<rparr>"






text \<open>Timer handles are handed out in increasing order: every pending timer and the
  lobby's stored handle are older than the next handle.\<close>

definition handles_below :: "world \<Rightarrow> nat \<Rightarrow> bool" where
  "handles_below w lr =
     (list_all (\<lambda>e. fst e < next_timer w) (timers w)
      \<and> (case timer (lobby_heap w lr) of None \<Rightarrow> True | Some t \<Rightarrow> t < next_timer w))"

text \<open>Whether an action is the firing of an advance timer (the second timer of
  \<open>performRoll\<close>).\<close>

definition fires_advance :: "action \<Rightarrow> world \<Rightarrow> bool" where
  "fires_advance a w =
     (case a of
        Fire t \<Rightarrow>
          (case find (\<lambda>e. fst e = t) (timers w) of
             None \<Rightarrow> False
           | Some e \<Rightarrow> (case snd (snd e) of Advance lr \<Rightarrow> True | _ \<Rightarrow> False))
      | _ \<Rightarrow> False)"

text \<open>A round of three (Ann, Bob, Cy, in this order) that has just started, Ann on turn;
  then Ann rolls twice, one second apart, and the two advance timers fire.\<close>

definition trio_world :: world where
  "trio_world =
     demo_world
       \<lparr>lobby_heap := (\<lambda>_. demo_lobby\<lparr>pot := 150, players := [0, 1, 2],
                           turnOrder := [''sockA'', ''sockB'', ''sockC'']\<rparr>),
        player_heap := (\<lambda>q. (demo_players q)\<lparr>lastRoll := None\<rparr>)
          (2 := \<lparr>p_id = ''sockC'', p_nickname = ''Cy_Dee'', lastRoll = None\<rparr>),
        next_player := 3\<rparr>"

definition trio_two_rolls :: world where
  "trio_two_rolls = performRoll 0 0 False (elapse 1000 (performRoll 0 0 False trio_world))"

definition trio_advanced :: world where
  "trio_advanced = fire_timer 3 (fire_timer 1 trio_two_rolls)"

section \<open>Shuffling and starting a round\<close>


lemma random_floor_bound:
  assumes "0 \<le> r" "r < 1"
  shows "nat \<lfloor>r * real (Suc n)\<rfloor> \<le> n"
proof -
  have "r * real (Suc n) < real (Suc n)" using assms by simp
  then have "\<lfloor>r * real (Suc n)\<rfloor> < int (Suc n)" by (simp add: floor_less_iff)
  then show ?thesis by simp
qed

lemma shuffle_loop_Suc:
  "shuffle_loop (Suc k) xs w =
     shuffle_loop k (xs[Suc k := xs ! swap_index w k, swap_index w k := xs ! Suc k])
       (w\<lparr>random_pos := Suc (random_pos w)\<rparr>)"
  by (simp add: Math_random_def Let_def swap_index_def)

lemma swap_index_le: "random_ok w \<Longrightarrow> swap_index w k \<le> Suc k"
  unfolding swap_index_def by (rule random_floor_bound) (simp_all add: random_ok_def)

lemma shuffle_loop_world:
  "snd (shuffle_loop k xs w) = w\<lparr>random_pos := random_pos w + k\<rparr>"
  by (induction k arbitrary: xs w) (simp_all add: shuffle_loop_Suc del: shuffle_loop.simps(2))

lemma shuffle_loop_mset:
  "random_ok w \<Longrightarrow> k < length xs \<Longrightarrow> mset (fst (shuffle_loop k xs w)) = mset xs"
proof (induction k arbitrary: xs w)
  case 0
  then show ?case by simp
next
  case (Suc k)
  let ?j = "swap_index w k"
  let ?w = "w\<lparr>random_pos := Suc (random_pos w)\<rparr>"
  have j: "?j \<le> Suc k" using Suc.prems(1) by (rule swap_index_le)
  have ok: "random_ok ?w" using Suc.prems(1) by (simp add: random_ok_def)
  have len: "k < length (xs[Suc k := xs ! ?j, ?j := xs ! Suc k])" using Suc.prems(2) by simp
  have "mset (fst (shuffle_loop k (xs[Suc k := xs ! ?j, ?j := xs ! Suc k]) ?w))
        = mset (xs[Suc k := xs ! ?j, ?j := xs ! Suc k])"
    by (rule Suc.IH[OF ok len])
  also have "\<dots> = mset xs"
    using j Suc.prems(2) by (intro mset_swap) simp_all
  finally show ?case by (simp only: shuffle_loop_Suc)
qed

lemma shuffle_mset: "random_ok w \<Longrightarrow> mset (fst (shuffle xs w)) = mset xs"
  by (cases xs) (simp_all add: shuffle_def shuffle_loop_mset)

lemma reset_rolls_apply:
  "reset_rolls order ps h q =
     (if q \<in> set ps \<and> p_id (h q) \<in> set order then (h q)\<lparr>lastRoll := None\<rparr> else h q)"
  unfolding reset_rolls_def
proof (induction ps arbitrary: h)
  case Nil
  then show ?case by simp
next
  case (Cons p ps)
  show ?case by (simp add: Cons.IH) auto
qed

lemma reset_rolls_pid [simp]: "p_id (reset_rolls order ps h q) = p_id (h q)"
  by (simp add: reset_rolls_apply)

lemma processTurn_player_heap [simp]: "player_heap (processTurn lr w) = player_heap w"
  by (simp add: processTurn_def Let_def emit_def clear_lobby_timer_def clearTimeout_def
      setTimeout_def set_lobby_def split: option.splits)

lemma processTurn_lobby:
  "\<exists>t. lobby_heap (processTurn lr w) = (lobby_heap w)(lr := (lobby_heap w lr)\<lparr>timer := t\<rparr>)"
proof -
  have same: "(lobby_heap w)(lr := (lobby_heap w lr)\<lparr>timer := timer (lobby_heap w lr)\<rparr>) = lobby_heap w"
    by simp
  show ?thesis
    unfolding processTurn_def Let_def
    by (auto simp: emit_def clear_lobby_timer_def clearTimeout_def setTimeout_def set_lobby_def
        split: option.splits intro: exI[of _ "timer (lobby_heap w lr)"])
qed

lemma shuffle_world: "snd (shuffle xs w) = w\<lparr>random_pos := random_pos w + (length xs - 1)\<rparr>"
  by (simp add: shuffle_def shuffle_loop_world)

lemma shuffle_loop_cong:
  "random w = random w' \<Longrightarrow> random_pos w = random_pos w' \<Longrightarrow>
   fst (shuffle_loop k xs w) = fst (shuffle_loop k xs w')"
proof (induction k arbitrary: xs w w')
  case 0
  then show ?case by simp
next
  case (Suc k)
  have j: "swap_index w k = swap_index w' k" using Suc.prems by (simp add: swap_index_def)
  show ?case
    unfolding shuffle_loop_Suc j
    by (rule Suc.IH) (simp_all add: Suc.prems)
qed

lemma shuffle_set_lobby [simp]: "fst (shuffle xs (set_lobby lr l w)) = fst (shuffle xs w)"
  unfolding shuffle_def by (rule shuffle_loop_cong) (simp_all add: set_lobby_def)

lemma shuffle_split: "shuffle xs w = (fst (shuffle xs w), w\<lparr>random_pos := random_pos w + (length xs - 1)\<rparr>)"
  by (metis prod.collapse shuffle_world)

lemma startGame_player_heap:
  "player_heap (startGame lr ps w) =
     reset_rolls (start_order ps w) (players (lobby_heap w lr)) (player_heap w)"
  unfolding startGame_def Let_def
  apply (subst shuffle_split)
  apply (simp add: update_room_def emit_def start_order_def)
  apply (simp add: set_lobby_def)
  done

lemma startGame_lobby:
  "\<exists>t. lobby_heap (startGame lr ps w) =
     (lobby_heap w)(lr := (lobby_heap w lr)\<lparr>state := PLAYING, turnOrder := start_order ps w,
                       turnIndex := 0, lastWinnerId := None, timer := t\<rparr>)"
proof -
  let ?w6 = "emit (To_room (lid (lobby_heap w lr))) (Chat_msg SYSTEM (Game_started (pot (lobby_heap w lr))))
     (update_room lr ((set_lobby lr ((lobby_heap w lr)\<lparr>state := PLAYING, turnOrder := start_order ps w,
                       turnIndex := 0, lastWinnerId := None\<rparr>) (w\<lparr>random_pos := random_pos w + (length ps - 1)\<rparr>))
        \<lparr>player_heap := reset_rolls (start_order ps w) (players (lobby_heap w lr)) (player_heap w)\<rparr>))"
  have eq: "startGame lr ps w = processTurn lr ?w6"
    unfolding startGame_def Let_def
    apply (subst shuffle_split)
    apply (simp add: update_room_def emit_def start_order_def)
    apply (simp add: set_lobby_def)
    done
  obtain t where t: "lobby_heap (processTurn lr ?w6) = (lobby_heap ?w6)(lr := (lobby_heap ?w6 lr)\<lparr>timer := t\<rparr>)"
    using processTurn_lobby by blast
  show ?thesis
    unfolding eq t by (rule exI[of _ t]) (simp add: set_lobby_def update_room_def emit_def)
qed

lemma start_order_mset:
  "random_ok w \<Longrightarrow> mset (start_order ps w) = mset (map (\<lambda>p. p_id (player_heap w p)) ps)"
  by (simp add: start_order_def shuffle_mset)

text \<open>
  Claim C3. Whatever list of player objects \<open>startGame\<close> is given, the turn order it leaves
  is a permutation of those participants' ids (the same multiset), the turn index is 0,
  the last winner is cleared, the state is \<open>PLAYING\<close>, the seated roster is the same, and
  every seated player whose id is in the turn order has \<open>lastRoll = null\<close>. The only
  assumption is the contract of \<open>Math.random()\<close>.
\<close>

theorem startGame_turn_order:
  assumes ok: "random_ok w" and w': "w' = startGame lr participants w"
  shows "mset (turnOrder (lobby_heap w' lr)) = mset (map (\<lambda>p. p_id (player_heap w p)) participants)
       \<and> turnIndex (lobby_heap w' lr) = 0
       \<and> lastWinnerId (lobby_heap w' lr) = None
       \<and> state (lobby_heap w' lr) = PLAYING
       \<and> players (lobby_heap w' lr) = players (lobby_heap w lr)
       \<and> (\<forall>p \<in> set (players (lobby_heap w' lr)).
             p_id (player_heap w' p) \<in> set (turnOrder (lobby_heap w' lr))
             \<longrightarrow> lastRoll (player_heap w' p) = None)"
proof -
  obtain t where l: "lobby_heap w' =
     (lobby_heap w)(lr := (lobby_heap w lr)\<lparr>state := PLAYING, turnOrder := start_order participants w,
                       turnIndex := 0, lastWinnerId := None, timer := t\<rparr>)"
    unfolding w' using startGame_lobby by blast
  have h: "player_heap w' =
     reset_rolls (start_order participants w) (players (lobby_heap w lr)) (player_heap w)"
    unfolding w' by (rule startGame_player_heap)
  have "mset (turnOrder (lobby_heap w' lr)) = mset (map (\<lambda>p. p_id (player_heap w p)) participants)"
    by (simp add: l start_order_mset[OF ok])
  moreover have "\<forall>p \<in> set (players (lobby_heap w' lr)).
             p_id (player_heap w' p) \<in> set (turnOrder (lobby_heap w' lr))
             \<longrightarrow> lastRoll (player_heap w' p) = None"
    by (simp add: l h reset_rolls_apply)
  ultimately show ?thesis by (simp add: l)
qed

lemma demo_random_ok: "random_ok demo_world"
  by (simp add: random_ok_def demo_world_def)

theorem startGame_turn_order_witness:
  "random_ok demo_world
   \<and> mset (turnOrder (lobby_heap (startGame 0 [0, 1] demo_world) 0)) = mset [''sockA'', ''sockB'']
   \<and> turnIndex (lobby_heap (startGame 0 [0, 1] demo_world) 0) = 0
   \<and> lastRoll (player_heap (startGame 0 [0, 1] demo_world) 1) = None"
proof -
  have a: "players (lobby_heap demo_world 0) = [0, 1]"
    by (simp add: demo_world_def demo_lobby_def)
  have b: "map (\<lambda>p. p_id (player_heap demo_world p)) [0, 1] = [''sockA'', ''sockB'']"
    by (simp add: demo_world_def demo_players_def)
  note t = startGame_turn_order[OF demo_random_ok refl, of 0 "[0, 1]"]
  have c: "p_id (player_heap (startGame 0 [0, 1] demo_world) 1) = ''sockB''"
    by (simp add: startGame_player_heap demo_world_def demo_players_def)
  have d: "''sockB'' \<in> set (turnOrder (lobby_heap (startGame 0 [0, 1] demo_world) 0))"
    using t b by (metis list.set_intros(1,2) mset_eq_setD)
  from t a b c d show ?thesis by (simp add: demo_random_ok)
qed

section \<open>A roll out of turn\<close>

text \<open>
  Claim C7. A \<open>roll_dice\<close> message from a socket that is in no lobby, or whose lobby is
  not in state \<open>PLAYING\<close>, or that is not the id at the current turn index (also when
  that index is out of range), is ignored: the handler returns without an exception
  and the whole world, the outbox of sent messages and the pending timers included, is
  the same as before.
\<close>

theorem roll_dice_ignored:
  assumes "\<forall>lr. lookup_lobby w (currentLobby (sockets w s)) = Some lr \<longrightarrow>
             state (lobby_heap w lr) \<noteq> PLAYING
             \<or> nth_opt (turnOrder (lobby_heap w lr)) (turnIndex (lobby_heap w lr)) \<noteq> Some s"
  shows "roll_dice s w = Inr w \<and> step (Roll_dice s) w = Inr w"
proof -
  have "roll_dice s w = Inr w"
  proof (cases "lookup_lobby w (currentLobby (sockets w s))")
    case None
    then show ?thesis by (simp add: roll_dice_def)
  next
    case (Some lr)
    with assms have "state (lobby_heap w lr) \<noteq> PLAYING
             \<or> nth_opt (turnOrder (lobby_heap w lr)) (turnIndex (lobby_heap w lr)) \<noteq> Some s"
      by blast
    with Some show ?thesis by (auto simp: roll_dice_def Let_def)
  qed
  then show ?thesis by (simp add: step_def)
qed

lemma demo_lookup:
  "lookup_lobby demo_world (currentLobby (sockets demo_world ''sockA'')) = Some 0"
  "lookup_lobby demo_world (currentLobby (sockets demo_world ''sockB'')) = Some 0"
  by (simp_all add: lookup_lobby_def demo_world_def demo_sockets_def)

lemma demo_lobby_at [simp]: "lobby_heap demo_world lr = demo_lobby"
  by (simp add: demo_world_def)

theorem roll_dice_ignored_witness:
  "lookup_lobby demo_world (currentLobby (sockets demo_world ''sockB'')) = Some 0
   \<and> state (lobby_heap demo_world 0) = PLAYING
   \<and> nth_opt (turnOrder (lobby_heap demo_world 0)) (turnIndex (lobby_heap demo_world 0)) = Some ''sockA''
   \<and> roll_dice ''sockB'' demo_world = Inr demo_world
   \<and> step (Roll_dice ''sockB'') demo_world = Inr demo_world"
proof -
  have t: "nth_opt (turnOrder demo_lobby) (turnIndex demo_lobby) = Some ''sockA''"
    by (simp add: nth_opt_def demo_lobby_def)
  have "\<forall>lr. lookup_lobby demo_world (currentLobby (sockets demo_world ''sockB'')) = Some lr \<longrightarrow>
             state (lobby_heap demo_world lr) \<noteq> PLAYING
             \<or> nth_opt (turnOrder (lobby_heap demo_world lr)) (turnIndex (lobby_heap demo_world lr)) \<noteq> Some ''sockB''"
    by (simp add: t)
  from roll_dice_ignored[OF this] show ?thesis
    by (simp add: demo_lookup t) (simp add: demo_lobby_def)
qed

section \<open>Resolution: the highest roll and the winners\<close>





lemma determineWinner_single:
  assumes "winners_of w (lobby_heap w lr) = [winner]"
  shows "determineWinner lr w =
     update_room lr
       (set_lobby lr ((lobby_heap w lr)
           \<lparr>lastWinnerId := Some (p_id (player_heap w winner)), state := FINISHED,
            players := filter (\<lambda>p. Some (p_id (player_heap w p)) = tableHostId (lobby_heap w lr)
                                  \<or> p_id (player_heap w p) = p_id (player_heap w winner))
                              (players (lobby_heap w lr)),
            pot := 0\<rparr>)
         (w\<lparr>pending_db := pending_db w @
               [(Credit (pot (lobby_heap w lr)) (p_nickname (player_heap w winner)),
                 Win_cb (p_id (player_heap w winner)) (pot (lobby_heap w lr)))],
            outbox := outbox w @
               [(To_room (lid (lobby_heap w lr)),
                 Game_over (p_nickname (player_heap w winner)) (pot (lobby_heap w lr))),
                (To_room (lid (lobby_heap w lr)),
                 Chat_msg TROPHY (Won (p_nickname (player_heap w winner)) (pot (lobby_heap w lr))))]\<rparr>))"
  unfolding determineWinner_def Let_def assms
  by (simp add: set_lobby_def emit_def)

lemma determineWinner_tie_eq:
  assumes "length (winners_of w (lobby_heap w lr)) \<noteq> 1"
  shows "determineWinner lr w =
     startGame lr (winners_of w (lobby_heap w lr))
       (emit (To_room (lid (lobby_heap w lr))) (Chat_msg SYSTEM Tie_round_2) w)"
proof (cases "winners_of w (lobby_heap w lr)")
  case Nil
  then show ?thesis by (simp add: determineWinner_def Let_def)
next
  case (Cons a as)
  with assms obtain b bs where "as = b # bs" by (cases as) auto
  with Cons show ?thesis by (simp add: determineWinner_def Let_def)
qed






lemma processTurn_frame [simp]:
  "pending_db (processTurn lr w) = pending_db w"
  "db (processTurn lr w) = db w"
  "sockets (processTurn lr w) = sockets w"
  "random (processTurn lr w) = random w"
  "random_pos (processTurn lr w) = random_pos w"
  "next_player (processTurn lr w) = next_player w"
  "lobbies (processTurn lr w) = lobbies w"
  "now (processTurn lr w) = now w"
  by (simp_all add: processTurn_def Let_def emit_def clear_lobby_timer_def clearTimeout_def
      setTimeout_def set_lobby_def split: option.splits)

lemma startGame_frame [simp]:
  "pending_db (startGame lr ps w) = pending_db w"
  "db (startGame lr ps w) = db w"
  "sockets (startGame lr ps w) = sockets w"
  "random (startGame lr ps w) = random w"
  "next_player (startGame lr ps w) = next_player w"
  "lobbies (startGame lr ps w) = lobbies w"
  "now (startGame lr ps w) = now w"
  unfolding startGame_def Let_def
  by (subst shuffle_split, simp add: update_room_def emit_def set_lobby_def)+

lemma start_order_emit [simp]: "start_order ps (emit t e w) = start_order ps w"
  unfolding start_order_def shuffle_def
  by (simp add: emit_def) (rule shuffle_loop_cong, simp_all)






section \<open>Seating\<close>

lemma sit_callback_lobby:
  "lobby_heap (sit_callback False s lr w) =
     (lobby_heap w)(lr := (lobby_heap w lr)
        \<lparr>pot := pot (lobby_heap w lr) + bet (lobby_heap w lr),
         players := players (lobby_heap w lr) @ [next_player w]\<rparr>)"
  by (simp add: sit_callback_def Let_def emit_def set_lobby_def update_room_def)














section \<open>A turn whose participant has left\<close>

text \<open>
  Claim C5 (the code does not do this). When the id at the current turn index is not
  the id of any seated player, \<open>processTurn\<close> returns at \<open>if (!player) return;\<close>: the
  world is unchanged, so no turn is announced, no timer is armed and the turn index
  stays where it is. In that lobby no roll can be performed any more (a \<open>roll_dice\<close>
  message is ignored, or throws for the missing participant itself), opening a table is
  refused with \<open>Game in progress\<close>, and \<open>join_table\<close> and \<open>start_game\<close> are ignored: the
  round stalls instead of skipping forward.
\<close>

theorem processTurn_missing_participant_stalls:
  assumes playing: "state (lobby_heap w lr) = PLAYING"
    and turn: "nth_opt (turnOrder (lobby_heap w lr)) (turnIndex (lobby_heap w lr)) = Some x"
    and gone: "find_player w (lobby_heap w lr) x = None"
  shows "processTurn lr w = w
       \<and> (\<forall>s. lookup_lobby w (currentLobby (sockets w s)) = Some lr \<longrightarrow>
             (roll_dice s w = Inr w \<or> roll_dice s w = Inl TypeError)
             \<and> host_set_bet s amount w = emit (To_socket s) (Error_msg ''Game in progress'') w
             \<and> join_table s w = w
             \<and> start_game s w = w)"
proof -
  have a: "processTurn lr w = w"
    by (simp add: processTurn_def Let_def turn gone)
  have b: "(roll_dice s w = Inr w \<or> roll_dice s w = Inl TypeError)
             \<and> host_set_bet s amount w = emit (To_socket s) (Error_msg ''Game in progress'') w
             \<and> join_table s w = w
             \<and> start_game s w = w"
    if "lookup_lobby w (currentLobby (sockets w s)) = Some lr" for s
    using that playing turn gone
    by (auto simp: roll_dice_def host_set_bet_def join_table_def start_game_def Let_def)
  from a b show ?thesis by blast
qed

lemma gone_lobby:
  "lobby_heap gone_world lr = demo_lobby\<lparr>users := [\<lparr>u_id = ''sockA'', u_nickname = ''Ann_Lee''\<rparr>],
                                        players := [0], turnIndex := 1\<rparr>"
  by (simp add: gone_world_def)

theorem processTurn_missing_participant_stalls_witness:
  "state (lobby_heap gone_world 0) = PLAYING
   \<and> nth_opt (turnOrder (lobby_heap gone_world 0)) (turnIndex (lobby_heap gone_world 0)) = Some ''sockB''
   \<and> find_player gone_world (lobby_heap gone_world 0) ''sockB'' = None
   \<and> timers gone_world = []
   \<and> processTurn 0 gone_world = gone_world
   \<and> roll_dice ''sockA'' gone_world = Inr gone_world"
proof -
  have p: "state (lobby_heap gone_world 0) = PLAYING"
    by (simp add: gone_lobby demo_lobby_def)
  have t: "nth_opt (turnOrder (lobby_heap gone_world 0)) (turnIndex (lobby_heap gone_world 0)) = Some ''sockB''"
    by (simp add: gone_lobby demo_lobby_def nth_opt_def)
  have g: "find_player gone_world (lobby_heap gone_world 0) ''sockB'' = None"
    by (simp add: find_player_def gone_lobby demo_lobby_def gone_world_def demo_world_def demo_players_def)
  have l: "lookup_lobby gone_world (currentLobby (sockets gone_world ''sockA'')) = Some 0"
    by (simp add: lookup_lobby_def gone_world_def demo_world_def demo_sockets_def)
  have r: "roll_dice ''sockA'' gone_world \<noteq> Inl TypeError"
    by (simp add: roll_dice_def l t p)
  have e: "timers gone_world = []"
    by (simp add: gone_world_def demo_world_def)
  from processTurn_missing_participant_stalls[OF p t g, of "''50''"] l r
  have "processTurn 0 gone_world = gone_world \<and> roll_dice ''sockA'' gone_world = Inr gone_world"
    by blast
  with p t g e show ?thesis by blast
qed

text \<open>The world of the witness is the one the server reaches from \<open>demo_world\<close> when Bob
  disconnects, Ann rolls and the two timers of her roll fire.\<close>

lemma gone_world_reached:
  "case roll_dice ''sockA'' (disconnect ''sockB'' demo_world) of
     Inl e \<Rightarrow> False
   | Inr w \<Rightarrow> lobby_heap (fire_timer 1 (fire_timer 0 w)) 0 = lobby_heap gone_world 0
            \<and> timers (fire_timer 1 (fire_timer 0 w)) = []"
  by (simp add: roll_dice_def disconnect_def leaveLobby_def leave_repair_def lookup_lobby_def
      performRoll_def getRandomInt_def Math_random_def clear_lobby_timer_def clearTimeout_def
      setTimeout_def fire_timer_def run_cont_def reveal_def advance_def processTurn_def
      update_room_def packLobbyData_def sendLobbyList_def emit_def set_lobby_def nth_opt_def
      find_player_def Let_def gone_world_def demo_world_def demo_lobby_def demo_players_def
      demo_sockets_def)

section \<open>The table host leaves\<close>

lemma leaveLobby_lobby:
  assumes "currentLobby (sockets w s) = Some i" "i \<noteq> []" "map_of (lobbies w) i = Some lr"
  shows "lobby_heap (leaveLobby s w) = (lobby_heap w)(lr := leave_repair (player_heap w) s (lobby_heap w lr))"
  using assms
  by (simp add: leaveLobby_def Let_def set_lobby_def emit_def sendLobbyList_def)

lemma leave_repair_reset:
  assumes "tableHostId l = Some s"
    and "filter (\<lambda>p. p_id (h p) \<noteq> s) (players l) = []"
    and "filter (\<lambda>u. u_id u \<noteq> s) (users l) \<noteq> []"
  shows "tableHostId (leave_repair h s l) = None" "state (leave_repair h s l) = IDLE"
    "bet (leave_repair h s l) = 0" "pot (leave_repair h s l) = pot l"
    "players (leave_repair h s l) = []"
    "users (leave_repair h s l) = filter (\<lambda>u. u_id u \<noteq> s) (users l)"
  using assms by (simp_all add: leave_repair_def Let_def split: list.splits)

text \<open>
  Claim C6 (the code does not reset the pot). When the table host leaves through
  \<open>leaveLobby\<close> (on a disconnect, or on a \<open>leave_lobby\<close> message, which runs \<open>leaveLobby\<close>
  for a requester who is not seated), no seated player remains and some member remains,
  the table host becomes none, the state \<open>IDLE\<close> and the bet 0, and the pot keeps the
  value it had: the branch assigns \<open>tableHostId\<close>, \<open>state\<close> and \<open>bet\<close> only.
\<close>

theorem leaveLobby_host_reset_keeps_pot:
  assumes cur: "currentLobby (sockets w s) = Some i" "i \<noteq> []" "map_of (lobbies w) i = Some lr"
    and host: "tableHostId (lobby_heap w lr) = Some s"
    and none_seated: "filter (\<lambda>p. p_id (player_heap w p) \<noteq> s) (players (lobby_heap w lr)) = []"
    and members: "filter (\<lambda>u. u_id u \<noteq> s) (users (lobby_heap w lr)) \<noteq> []"
  shows "tableHostId (lobby_heap (disconnect s w) lr) = None
       \<and> state (lobby_heap (disconnect s w) lr) = IDLE
       \<and> bet (lobby_heap (disconnect s w) lr) = 0
       \<and> pot (lobby_heap (disconnect s w) lr) = pot (lobby_heap w lr)
       \<and> tableHostId (lobby_heap (leaveLobby s w) lr) = None
       \<and> state (lobby_heap (leaveLobby s w) lr) = IDLE
       \<and> bet (lobby_heap (leaveLobby s w) lr) = 0
       \<and> pot (lobby_heap (leaveLobby s w) lr) = pot (lobby_heap w lr)
       \<and> (find_player w (lobby_heap w lr) s = None \<longrightarrow> leave_lobby s w = leaveLobby s w)"
proof -
  let ?w = "w\<lparr>sockets := (sockets w)(s := (sockets w s)\<lparr>connected := False\<rparr>)\<rparr>"
  have d: "lobby_heap (disconnect s w) = (lobby_heap w)(lr := leave_repair (player_heap w) s (lobby_heap w lr))"
    unfolding disconnect_def
    using leaveLobby_lobby[of ?w s i lr] cur by simp
  note l = leaveLobby_lobby[OF cur]
  note r = leave_repair_reset[OF host none_seated members]
  have v: "find_player w (lobby_heap w lr) s = None \<longrightarrow> leave_lobby s w = leaveLobby s w"
    using cur by (simp add: leave_lobby_def lookup_lobby_def)
  from v show ?thesis by (simp add: d l r)
qed

lemma solo_facts:
  "currentLobby (sockets solo_world ''sockA'') = Some ''room_1''"
  "map_of (lobbies solo_world) ''room_1'' = Some 0"
  "tableHostId (lobby_heap solo_world 0) = Some ''sockA''"
  "filter (\<lambda>p. p_id (player_heap solo_world p) \<noteq> ''sockA'') (players (lobby_heap solo_world 0)) = []"
  "filter (\<lambda>u. u_id u \<noteq> ''sockA'') (users (lobby_heap solo_world 0))
     = [\<lparr>u_id = ''sockB'', u_nickname = ''Bob_Ray''\<rparr>]"
  "pot (lobby_heap solo_world 0) = 50"
  by (simp_all add: solo_world_def demo_world_def demo_sockets_def demo_lobby_def demo_players_def)

theorem leaveLobby_host_reset_keeps_pot_witness:
  "tableHostId (lobby_heap solo_world 0) = Some ''sockA''
   \<and> filter (\<lambda>p. p_id (player_heap solo_world p) \<noteq> ''sockA'') (players (lobby_heap solo_world 0)) = []
   \<and> filter (\<lambda>u. u_id u \<noteq> ''sockA'') (users (lobby_heap solo_world 0)) \<noteq> []
   \<and> state (lobby_heap (disconnect ''sockA'' solo_world) 0) = IDLE
   \<and> bet (lobby_heap (disconnect ''sockA'' solo_world) 0) = 0
   \<and> tableHostId (lobby_heap (disconnect ''sockA'' solo_world) 0) = None
   \<and> pot (lobby_heap (disconnect ''sockA'' solo_world) 0) = 50
   \<and> pot (lobby_heap (disconnect ''sockA'' solo_world) 0) \<noteq> 0"
proof -
  have m: "filter (\<lambda>u. u_id u \<noteq> ''sockA'') (users (lobby_heap solo_world 0)) \<noteq> []"
    by (simp add: solo_facts)
  have i: "''room_1'' \<noteq> []" by simp
  from leaveLobby_host_reset_keeps_pot[OF solo_facts(1) i solo_facts(2) solo_facts(3) solo_facts(4) m]
  show ?thesis by (simp add: solo_facts)
qed

section \<open>Opening a table: the bet amount\<close>














lemma sitAtTable_frame:
  "lobby_heap (sitAtTable s lr w) = lobby_heap w"
  "player_heap (sitAtTable s lr w) = player_heap w"
  "sockets (sitAtTable s lr w) = sockets w"
  "db (sitAtTable s lr w) = db w"
  "timers (sitAtTable s lr w) = timers w"
  by (simp_all add: sitAtTable_def Let_def emit_def)









section \<open>Creating and joining a lobby leave the game alone\<close>

lemma leave_repair_frame [simp]:
  "turnIndex (leave_repair h s l) = turnIndex l"
  "timer (leave_repair h s l) = timer l"
  by (simp_all add: leave_repair_def Let_def split: list.splits)

lemma leaveLobby_frame [simp]:
  "player_heap (leaveLobby s w) = player_heap w"
  "turnIndex (lobby_heap (leaveLobby s w) lr) = turnIndex (lobby_heap w lr)"
  "timer (lobby_heap (leaveLobby s w) lr) = timer (lobby_heap w lr)"
  "timers (leaveLobby s w) = timers w"
  "next_timer (leaveLobby s w) = next_timer w"
  by (simp_all add: leaveLobby_def Let_def set_lobby_def emit_def sendLobbyList_def
      split: option.splits)

lemma joinLobby_frame [simp]:
  "player_heap (joinLobby s i w) = player_heap w"
  "turnIndex (lobby_heap (joinLobby s i w) lr) = turnIndex (lobby_heap w lr)"
  "timer (lobby_heap (joinLobby s i w) lr) = timer (lobby_heap w lr)"
  "timers (joinLobby s i w) = timers w"
  "next_timer (joinLobby s i w) = next_timer w"
  by (simp_all add: joinLobby_def Let_def set_lobby_def emit_def sendLobbyList_def
      split: option.splits)

lemma create_lobby_frame [simp]:
  "player_heap (create_lobby s name i w) = player_heap w"
  "turnIndex (lobby_heap (create_lobby s name i w) lr)
     = (if lr = next_lobby w then 0 else turnIndex (lobby_heap w lr))"
  "timer (lobby_heap (create_lobby s name i w) lr)
     = (if lr = next_lobby w then None else timer (lobby_heap w lr))"
  "timers (create_lobby s name i w) = timers w"
  "next_timer (create_lobby s name i w) = next_timer w"
  by (simp_all add: create_lobby_def Math_random_def Let_def)

lemma get_lobbies_frame [simp]:
  "player_heap (get_lobbies s w) = player_heap w"
  "lobby_heap (get_lobbies s w) = lobby_heap w"
  "timers (get_lobbies s w) = timers w"
  "next_timer (get_lobbies s w) = next_timer w"
  by (simp_all add: get_lobbies_def sendLobbyList_def emit_def)

section \<open>Rolling\<close>



lemma getRandomInt_1_6:
  "getRandomInt 1 6 w = (\<lfloor>random w (random_pos w) * 6\<rfloor> + 1, w\<lparr>random_pos := Suc (random_pos w)\<rparr>)"
  by (simp add: getRandomInt_def Math_random_def)

lemma performRoll_player_heap:
  "player_heap (performRoll lr p a w) =
     (player_heap w)(p := (player_heap w p)
        \<lparr>lastRoll := Some (\<lfloor>random w (random_pos w) * 6\<rfloor> + 1
                          + (\<lfloor>random w (Suc (random_pos w)) * 6\<rfloor> + 1))\<rparr>)"
  by (simp add: performRoll_def getRandomInt_1_6 Let_def clear_lobby_timer_def clearTimeout_def
      setTimeout_def emit_def split: option.splits)




lemma host_set_bet_player_heap [simp]: "player_heap (host_set_bet s amount w) = player_heap w"
  by (simp add: host_set_bet_def Let_def set_lobby_def emit_def sitAtTable_frame
      split: option.splits)


lemma win_callback_player_heap [simp]: "player_heap (win_callback wid a w) = player_heap w"
  by (simp add: win_callback_def Let_def emit_def)


lemma reveal_player_heap [simp]: "player_heap (reveal lr p d1 d2 w) = player_heap w"
  by (simp add: reveal_def update_room_def emit_def)


lemma join_table_player_heap [simp]: "player_heap (join_table s w) = player_heap w"
  by (simp add: join_table_def sitAtTable_frame split: option.splits)


lemma leave_lobby_player_heap [simp]: "player_heap (leave_lobby s w) = player_heap w"
  by (simp add: leave_lobby_def emit_def split: option.splits)

lemma disconnect_player_heap [simp]: "player_heap (disconnect s w) = player_heap w"
  by (simp add: disconnect_def)













section \<open>Two rolls in one turn\<close>

lemma clear_lobby_timer_timers:
  "timers (clear_lobby_timer lr w) = filter (\<lambda>e. Some (fst e) \<noteq> timer (lobby_heap w lr)) (timers w)"
  by (simp add: clear_lobby_timer_def clearTimeout_def split: option.splits)

lemma clear_lobby_timer_frame [simp]:
  "lobby_heap (clear_lobby_timer lr w) = lobby_heap w"
  "player_heap (clear_lobby_timer lr w) = player_heap w"
  "next_timer (clear_lobby_timer lr w) = next_timer w"
  "now (clear_lobby_timer lr w) = now w"
  "random (clear_lobby_timer lr w) = random w"
  "random_pos (clear_lobby_timer lr w) = random_pos w"
  "sockets (clear_lobby_timer lr w) = sockets w"
  "lobbies (clear_lobby_timer lr w) = lobbies w"
  by (simp_all add: clear_lobby_timer_def clearTimeout_def split: option.splits)

lemma performRoll_frame [simp]:
  "lobby_heap (performRoll lr p a w) = lobby_heap w"
  "next_timer (performRoll lr p a w) = Suc (Suc (next_timer w))"
  "now (performRoll lr p a w) = now w"
  "random (performRoll lr p a w) = random w"
  "random_pos (performRoll lr p a w) = Suc (Suc (random_pos w))"
  "sockets (performRoll lr p a w) = sockets w"
  "lobbies (performRoll lr p a w) = lobbies w"
  by (simp_all add: performRoll_def getRandomInt_1_6 Let_def setTimeout_def emit_def)

lemma performRoll_timers:
  "timers (performRoll lr p a w) =
     filter (\<lambda>e. Some (fst e) \<noteq> timer (lobby_heap w lr)) (timers w) @
       [(next_timer w, now w + 1500,
           Reveal lr p (\<lfloor>random w (random_pos w) * 6\<rfloor> + 1)
                       (\<lfloor>random w (Suc (random_pos w)) * 6\<rfloor> + 1)),
        (Suc (next_timer w), now w + 3500, Advance lr)]"
  by (simp add: performRoll_def getRandomInt_1_6 Let_def setTimeout_def emit_def
      clear_lobby_timer_timers)

lemma find_filter: "find P (filter Q xs) = find (\<lambda>x. P x \<and> Q x) xs"
  by (induction xs) simp_all

lemma find_append: "find P (xs @ ys) = (case find P xs of None \<Rightarrow> find P ys | Some x \<Rightarrow> Some x)"
  by (induction xs) simp_all

lemma fire_advance:
  assumes "find (\<lambda>e. fst e = t) (timers w) = Some (t, due, Advance lr)"
  shows "fire_timer t w =
     advance lr (w\<lparr>timers := filter (\<lambda>e. fst e \<noteq> t) (timers w), now := max (now w) due\<rparr>)"
  by (simp add: fire_timer_def assms run_cont_def)

lemma advance_next:
  assumes "Suc (turnIndex (lobby_heap w lr)) < length (turnOrder (lobby_heap w lr))"
  shows "advance lr w =
     processTurn lr (set_lobby lr ((lobby_heap w lr)\<lparr>turnIndex := Suc (turnIndex (lobby_heap w lr))\<rparr>) w)"
  using assms by (simp add: advance_def Let_def set_lobby_def)

lemma advance_last:
  assumes "\<not> Suc (turnIndex (lobby_heap w lr)) < length (turnOrder (lobby_heap w lr))"
  shows "advance lr w =
     determineWinner lr (set_lobby lr ((lobby_heap w lr)\<lparr>turnIndex := Suc (turnIndex (lobby_heap w lr))\<rparr>) w)"
  using assms by (simp add: advance_def Let_def set_lobby_def)

lemma processTurn_timers:
  "timers (processTurn lr w) = timers w \<and> next_timer (processTurn lr w) = next_timer w
   \<or> (\<exists>c. timers (processTurn lr w) =
          filter (\<lambda>e. Some (fst e) \<noteq> timer (lobby_heap w lr)) (timers w)
            @ [(next_timer w, now w + 10000, c)]
        \<and> next_timer (processTurn lr w) = Suc (next_timer w))"
  by (simp add: processTurn_def Let_def emit_def setTimeout_def set_lobby_def
      clear_lobby_timer_timers clear_lobby_timer_def clearTimeout_def split: option.splits)


lemma find_none_below_id:
  "list_all (\<lambda>e. fst e < (n::nat)) xs \<Longrightarrow> n \<le> t \<Longrightarrow> find (\<lambda>e. fst e = t) xs = None"
  by (induction xs) auto

lemma list_all_filter: "list_all P xs \<Longrightarrow> list_all P (filter Q xs)"
  by (induction xs) simp_all

lemma filter_filter_same: "filter Q (filter Q xs) = filter Q xs"
  by (induction xs) simp_all

text \<open>The pending timers after two rolls of the same player in one turn.\<close>

lemma two_rolls_timers:
  assumes hb: "handles_below w lr"
    and w1: "w1 = performRoll lr p False w"
    and w2: "w2 = performRoll lr p False (elapse d w1)"
  shows "\<exists>F r1 r2. list_all (\<lambda>e. fst e < next_timer w) F
           \<and> timers w1 = F @ [(next_timer w, now w + 1500, r1), (Suc (next_timer w), now w + 3500, Advance lr)]
           \<and> timers w2 = F @ [(next_timer w, now w + 1500, r1),
                               (Suc (next_timer w), now w + 3500, Advance lr),
                               (Suc (Suc (next_timer w)), now w + d + 1500, r2),
                               (Suc (Suc (Suc (next_timer w))), now w + d + 3500, Advance lr)]"
proof -
  let ?Q = "\<lambda>e::nat \<times> nat \<times> cont. Some (fst e) \<noteq> timer (lobby_heap w lr)"
  let ?F = "filter ?Q (timers w)"
  from hb have below: "list_all (\<lambda>e. fst e < next_timer w) (timers w)"
    and t0: "timer (lobby_heap w lr) \<noteq> Some (next_timer w)"
      "timer (lobby_heap w lr) \<noteq> Some (Suc (next_timer w))"
    by (auto simp: handles_below_def split: option.splits)
  have F: "list_all (\<lambda>e. fst e < next_timer w) ?F"
    using below by (rule list_all_filter)
  obtain r1 where t1: "timers w1 = ?F @ [(next_timer w, now w + 1500, r1),
                                        (Suc (next_timer w), now w + 3500, Advance lr)]"
    unfolding w1 performRoll_timers by blast
  have e: "timers (elapse d w1) = timers w1" "next_timer (elapse d w1) = Suc (Suc (next_timer w))"
      "now (elapse d w1) = now w + d" "lobby_heap (elapse d w1) = lobby_heap w"
    by (simp_all add: elapse_def w1)
  obtain r2 where t2: "timers w2 = filter ?Q (timers w1) @
        [(Suc (Suc (next_timer w)), now w + d + 1500, r2),
         (Suc (Suc (Suc (next_timer w))), now w + d + 3500, Advance lr)]"
    unfolding w2 performRoll_timers e by blast
  have "filter ?Q (timers w1) = ?F @ [(next_timer w, now w + 1500, r1),
                                       (Suc (next_timer w), now w + 3500, Advance lr)]"
    using t0 by (auto simp: t1 filter_filter_same)
  with t2 have "timers w2 = ?F @ [(next_timer w, now w + 1500, r1),
                               (Suc (next_timer w), now w + 3500, Advance lr),
                               (Suc (Suc (next_timer w)), now w + d + 1500, r2),
                               (Suc (Suc (Suc (next_timer w))), now w + d + 3500, Advance lr)]"
    by simp
  with F t1 show ?thesis by blast
qed


lemma fire_first_advance:
  fixes n :: nat
  assumes tm: "timers w2 = F @ [(n, u1, r1), (Suc n, u2, Advance lr), (Suc (Suc n), u3, r2),
                                (Suc (Suc (Suc n)), u4, Advance lr)]"
    and F: "list_all (\<lambda>e. fst e < n) F"
    and t0: "timer (lobby_heap w2 lr) \<noteq> Some (Suc (Suc (Suc n)))"
    and nxt: "Suc (turnIndex (lobby_heap w2 lr)) < length (turnOrder (lobby_heap w2 lr))"
    and w3: "w3 = fire_timer (Suc n) w2"
  shows "\<exists>t. lobby_heap w3 =
           (lobby_heap w2)(lr := (lobby_heap w2 lr)\<lparr>turnIndex := Suc (turnIndex (lobby_heap w2 lr)),
                                                    timer := t\<rparr>)"
    and "player_heap w3 = player_heap w2"
    and "find (\<lambda>e. fst e = Suc (Suc (Suc n))) (timers w3) = Some (Suc (Suc (Suc n)), u4, Advance lr)"
proof -
  let ?A1 = "(Suc n, u2, Advance lr)"
  let ?A2 = "(Suc (Suc (Suc n)), u4, Advance lr)"
  have none: "find (\<lambda>e. fst e = t) F = None" if "n \<le> t" for t
    using F that by (rule find_none_below_id)
  have f1: "find (\<lambda>e. fst e = Suc n) (timers w2) = Some ?A1"
    by (simp add: tm find_append none)
  define w where "w = w2\<lparr>timers := filter (\<lambda>e. fst e \<noteq> Suc n) (timers w2), now := max (now w2) u2\<rparr>"
  define v where "v = set_lobby lr ((lobby_heap w lr)\<lparr>turnIndex := Suc (turnIndex (lobby_heap w lr))\<rparr>) w"
  have wl: "lobby_heap w = lobby_heap w2" "player_heap w = player_heap w2"
    by (simp_all add: w_def)
  have "w3 = advance lr w" unfolding w3 w_def by (rule fire_advance[OF f1])
  also have "\<dots> = processTurn lr v"
    unfolding v_def by (rule advance_next) (simp add: nxt wl)
  finally have eq: "w3 = processTurn lr v" .
  have vl: "lobby_heap v = (lobby_heap w2)(lr := (lobby_heap w2 lr)\<lparr>turnIndex := Suc (turnIndex (lobby_heap w2 lr))\<rparr>)"
      "player_heap v = player_heap w2"
      "timers v = filter (\<lambda>e. fst e \<noteq> Suc n) (timers w2)"
    by (simp_all add: v_def set_lobby_def w_def)
  obtain t where "lobby_heap (processTurn lr v) = (lobby_heap v)(lr := (lobby_heap v lr)\<lparr>timer := t\<rparr>)"
    using processTurn_lobby by blast
  then have "lobby_heap w3 =
           (lobby_heap w2)(lr := (lobby_heap w2 lr)\<lparr>turnIndex := Suc (turnIndex (lobby_heap w2 lr)),
                                                    timer := t\<rparr>)"
    by (simp add: eq vl)
  then show "\<exists>t. lobby_heap w3 =
           (lobby_heap w2)(lr := (lobby_heap w2 lr)\<lparr>turnIndex := Suc (turnIndex (lobby_heap w2 lr)),
                                                    timer := t\<rparr>)"
    by blast
  show "player_heap w3 = player_heap w2"
    by (simp add: eq vl)
  have tv: "timer (lobby_heap v lr) = timer (lobby_heap w2 lr)"
    by (simp add: vl)
  have p1: "(\<lambda>e::nat \<times> nat \<times> cont. fst e = Suc (Suc (Suc n)) \<and> fst e \<noteq> Suc n)
              = (\<lambda>e. fst e = Suc (Suc (Suc n)))"
    by auto
  have p2: "(\<lambda>x::nat \<times> nat \<times> cont. fst x = Suc (Suc (Suc n))
                \<and> fst x \<noteq> Suc n \<and> Some (fst x) \<noteq> timer (lobby_heap w2 lr))
              = (\<lambda>e. fst e = Suc (Suc (Suc n)))"
    using t0 by auto
  have f2: "find (\<lambda>e. fst e = Suc (Suc (Suc n))) (timers w2) = Some ?A2"
    by (simp add: tm find_append none)
  from processTurn_timers[of lr v]
  show "find (\<lambda>e. fst e = Suc (Suc (Suc n))) (timers w3) = Some ?A2"
  proof
    assume "timers (processTurn lr v) = timers v \<and> next_timer (processTurn lr v) = next_timer v"
    then have "timers w3 = filter (\<lambda>e. fst e \<noteq> Suc n) (timers w2)"
      by (simp add: eq vl)
    then show ?thesis
      by (simp add: find_filter p1 f2)
  next
    assume "\<exists>c. timers (processTurn lr v) =
          filter (\<lambda>e. Some (fst e) \<noteq> timer (lobby_heap v lr)) (timers v)
            @ [(next_timer v, now v + 10000, c)]
        \<and> next_timer (processTurn lr v) = Suc (next_timer v)"
    then obtain c where "timers w3 =
          filter (\<lambda>e. Some (fst e) \<noteq> timer (lobby_heap w2 lr)) (filter (\<lambda>e. fst e \<noteq> Suc n) (timers w2))
            @ [(next_timer v, now v + 10000, c)]"
      by (auto simp: eq tv vl(3))
    then show ?thesis
      by (simp add: find_append find_filter p2 f2)
  qed
qed

lemma fire_second_advance:
  assumes f: "find (\<lambda>e. fst e = t) (timers w3) = Some (t, u, Advance lr)"
    and w4: "w4 = fire_timer t w3"
  shows "\<exists>w'. lobby_heap w' = (lobby_heap w3)(lr := (lobby_heap w3 lr)\<lparr>turnIndex := Suc (turnIndex (lobby_heap w3 lr))\<rparr>)
           \<and> player_heap w' = player_heap w3
           \<and> w4 = (if Suc (turnIndex (lobby_heap w3 lr)) < length (turnOrder (lobby_heap w3 lr))
                   then processTurn lr w' else determineWinner lr w')"
proof -
  let ?w = "w3\<lparr>timers := filter (\<lambda>e. fst e \<noteq> t) (timers w3), now := max (now w3) u\<rparr>"
  let ?v = "set_lobby lr ((lobby_heap ?w lr)\<lparr>turnIndex := Suc (turnIndex (lobby_heap ?w lr))\<rparr>) ?w"
  have eq: "w4 = advance lr ?w" unfolding w4 by (rule fire_advance[OF f])
  have "w4 = (if Suc (turnIndex (lobby_heap w3 lr)) < length (turnOrder (lobby_heap w3 lr))
                   then processTurn lr ?v else determineWinner lr ?v)"
  proof (cases "Suc (turnIndex (lobby_heap ?w lr)) < length (turnOrder (lobby_heap ?w lr))")
    case True
    from advance_next[OF this] True show ?thesis by (simp add: eq)
  next
    case False
    from advance_last[OF this] False show ?thesis by (simp add: eq)
  qed
  moreover have "lobby_heap ?v = (lobby_heap w3)(lr := (lobby_heap w3 lr)\<lparr>turnIndex := Suc (turnIndex (lobby_heap w3 lr))\<rparr>)"
      "player_heap ?v = player_heap w3"
    by (simp_all add: set_lobby_def)
  ultimately show ?thesis by blast
qed


subsection \<open>Who moves the turn index\<close>

lemma host_set_bet_turnIndex [simp]:
  "turnIndex (lobby_heap (host_set_bet s amount w) lr) = turnIndex (lobby_heap w lr)"
  by (simp add: host_set_bet_def Let_def set_lobby_def emit_def sitAtTable_frame
      split: option.splits)

lemma sit_callback_turnIndex [simp]:
  "turnIndex (lobby_heap (sit_callback err s lr' w) lr) = turnIndex (lobby_heap w lr)"
  by (cases err) (simp_all add: sit_callback_lobby, simp add: sit_callback_def)

lemma win_callback_lobby_heap [simp]: "lobby_heap (win_callback wid a w) = lobby_heap w"
  by (simp add: win_callback_def Let_def emit_def)

lemma startGame_turnIndex:
  "turnIndex (lobby_heap (startGame lr' ps w) lr) = turnIndex (lobby_heap w lr)
   \<or> turnIndex (lobby_heap (startGame lr' ps w) lr) = 0"
proof -
  obtain t where "lobby_heap (startGame lr' ps w) =
     (lobby_heap w)(lr' := (lobby_heap w lr')\<lparr>state := PLAYING, turnOrder := start_order ps w,
                       turnIndex := 0, lastWinnerId := None, timer := t\<rparr>)"
    using startGame_lobby by blast
  then show ?thesis by simp
qed

lemma reveal_lobby_heap [simp]: "lobby_heap (reveal lr p d1 d2 w) = lobby_heap w"
  by (simp add: reveal_def update_room_def emit_def)

lemma step_turnIndex:
  assumes "step a w = Inr w'" "\<not> fires_advance a w"
  shows "turnIndex (lobby_heap w' lr) = turnIndex (lobby_heap w lr)
         \<or> turnIndex (lobby_heap w' lr) = 0"
proof (cases a)
  case (Create_lobby s name i)
  with assms show ?thesis by (auto simp: step_def)
next
  case (Join_lobby s i)
  with assms show ?thesis by (auto simp: step_def)
next
  case (Get_lobbies s)
  with assms show ?thesis by (auto simp: step_def)
next
  case (Host_set_bet s amount)
  with assms show ?thesis by (auto simp: step_def)
next
  case (Join_table s)
  with assms show ?thesis
    by (auto simp: step_def join_table_def sitAtTable_frame split: option.splits)
next
  case (Start_game s)
  have "start_game s w = w \<or> (\<exists>e. start_game s w = emit (To_socket s) e w)
        \<or> (\<exists>lr' ps. start_game s w = startGame lr' ps w)"
    by (auto simp: start_game_def Let_def split: option.splits)
  moreover have "w' = start_game s w"
    using assms(1) Start_game by (simp add: step_def)
  ultimately show ?thesis
    by (elim disjE exE) (simp_all add: emit_def startGame_turnIndex)
next
  case (Roll_dice s)
  with assms show ?thesis
    by (auto simp: step_def roll_dice_def Let_def split: option.splits if_splits)
next
  case (Leave_lobby s)
  with assms show ?thesis
    by (auto simp: step_def leave_lobby_def emit_def split: option.splits if_splits)
next
  case (Disconnect s)
  with assms show ?thesis by (auto simp: step_def disconnect_def)
next
  case (Fire t)
  show ?thesis
  proof (cases "find (\<lambda>e. fst e = t) (timers w)")
    case None
    with assms Fire show ?thesis by (auto simp: step_def fire_timer_def)
  next
    case (Some e)
    with assms(2) Fire obtain x y z u where "snd (snd e) = Auto_roll x y \<or> snd (snd e) = Reveal x y z u"
      by (cases "snd (snd e)") (auto simp: fires_advance_def)
    with assms(1) Fire Some show ?thesis
      by (auto simp: step_def fire_timer_def run_cont_def)
  qed
next
  case (Db_complete k err)
  with assms show ?thesis
    by (auto simp: step_def db_complete_def run_db_cont_def split: option.splits db_cont.splits)
next
  case (Elapse d)
  with assms show ?thesis by (auto simp: step_def elapse_def)
qed


lemma find_player_same_ids:
  assumes "\<And>q. p_id (player_heap w' q) = p_id (player_heap w q)"
  shows "find_player w' l x = find_player w l x"
  by (simp add: find_player_def assms)

lemma roll_dice_accepted:
  assumes "lookup_lobby w (currentLobby (sockets w s)) = Some lr"
    and "state (lobby_heap w lr) = PLAYING"
    and "nth_opt (turnOrder (lobby_heap w lr)) (turnIndex (lobby_heap w lr)) = Some s"
    and "find_player w (lobby_heap w lr) s = Some p"
  shows "roll_dice s w = Inr (performRoll lr p False w)"
  using assms by (simp add: roll_dice_def Let_def)

text \<open>
  Claim C10. Let a seated player be on turn in a round with a next entry in the turn
  order. The player's \<open>roll_dice\<close> is accepted and performs the roll: the lobby object,
  and with it the turn index, is unchanged, and an advance timer is pending for 3.5 s
  later. A second \<open>roll_dice\<close> of the same player after a delay below 3.5 s, before that
  timer is due and while it is still pending, is accepted again: it replaces the player's \<open>lastRoll\<close> by the
  sum of two new draws and leaves two advance timers pending. When the first one fires
  the turn index is one higher, and when the second one fires it is raised once more
  before the next turn begins or the winner is determined: if the order has an entry
  two places on, the turn is then there, and no player object other than the roller's
  has changed, so the participant in between has not rolled. Finally, no step of the
  server other than an advance timer firing raises a turn index: any other step leaves
  it as it is or resets it to 0.
\<close>

theorem second_roll_before_advance:
  assumes lk: "lookup_lobby w (currentLobby (sockets w s)) = Some lr"
    and pl: "state (lobby_heap w lr) = PLAYING"
    and turn: "nth_opt (turnOrder (lobby_heap w lr)) (turnIndex (lobby_heap w lr)) = Some s"
    and seat: "find_player w (lobby_heap w lr) s = Some p"
    and hb: "handles_below w lr"
    and early: "d < 3500"
    and nxt: "Suc (turnIndex (lobby_heap w lr)) < length (turnOrder (lobby_heap w lr))"
    and w1: "w1 = performRoll lr p False w"
    and w2: "w2 = performRoll lr p False (elapse d w1)"
    and w3: "w3 = fire_timer (Suc (next_timer w)) w2"
    and w4: "w4 = fire_timer (Suc (Suc (Suc (next_timer w)))) w3"
  shows "roll_dice s w = Inr w1
       \<and> lobby_heap w1 = lobby_heap w
       \<and> lastRoll (player_heap w1 p)
           = Some (\<lfloor>random w (random_pos w) * 6\<rfloor> + 1 + (\<lfloor>random w (Suc (random_pos w)) * 6\<rfloor> + 1))
       \<and> find (\<lambda>e. fst e = Suc (next_timer w)) (timers w1)
           = Some (Suc (next_timer w), now w + 3500, Advance lr)
       \<and> now (elapse d w1) < now w + 3500
       \<and> roll_dice s (elapse d w1) = Inr w2
       \<and> lobby_heap w2 = lobby_heap w
       \<and> lastRoll (player_heap w2 p)
           = Some (\<lfloor>random w (Suc (Suc (random_pos w))) * 6\<rfloor> + 1
                   + (\<lfloor>random w (Suc (Suc (Suc (random_pos w)))) * 6\<rfloor> + 1))
       \<and> find (\<lambda>e. fst e = Suc (next_timer w)) (timers w2)
           = Some (Suc (next_timer w), now w + 3500, Advance lr)
       \<and> find (\<lambda>e. fst e = Suc (Suc (Suc (next_timer w)))) (timers w2)
           = Some (Suc (Suc (Suc (next_timer w))), now w + d + 3500, Advance lr)
       \<and> turnIndex (lobby_heap w3 lr) = Suc (turnIndex (lobby_heap w lr))
       \<and> (\<exists>w'. turnIndex (lobby_heap w' lr) = Suc (Suc (turnIndex (lobby_heap w lr)))
              \<and> player_heap w' = player_heap w2
              \<and> w4 = (if Suc (Suc (turnIndex (lobby_heap w lr))) < length (turnOrder (lobby_heap w lr))
                      then processTurn lr w' else determineWinner lr w'))
       \<and> (Suc (Suc (turnIndex (lobby_heap w lr))) < length (turnOrder (lobby_heap w lr)) \<longrightarrow>
             turnIndex (lobby_heap w4 lr) = Suc (Suc (turnIndex (lobby_heap w lr)))
             \<and> (\<forall>q. q \<noteq> p \<longrightarrow> player_heap w4 q = player_heap w q))
       \<and> (\<forall>a v v'. step a v = Inr v' \<and> \<not> fires_advance a v \<longrightarrow>
             turnIndex (lobby_heap v' lr) = turnIndex (lobby_heap v lr)
             \<or> turnIndex (lobby_heap v' lr) = 0)"
proof -
  let ?n = "next_timer w"
  let ?i = "turnIndex (lobby_heap w lr)"
  let ?e = "elapse d w1"
  have r1: "roll_dice s w = Inr w1"
    unfolding w1 using lk pl turn seat by (rule roll_dice_accepted)
  have l1: "lobby_heap w1 = lobby_heap w" by (simp add: w1)
  have h1: "player_heap w1 = (player_heap w)(p := (player_heap w p)
        \<lparr>lastRoll := Some (\<lfloor>random w (random_pos w) * 6\<rfloor> + 1
                          + (\<lfloor>random w (Suc (random_pos w)) * 6\<rfloor> + 1))\<rparr>)"
    unfolding w1 by (rule performRoll_player_heap)
  have e: "lobby_heap ?e = lobby_heap w" "sockets ?e = sockets w" "lobbies ?e = lobbies w"
      "player_heap ?e = player_heap w1" "random ?e = random w"
      "random_pos ?e = Suc (Suc (random_pos w))"
    by (simp_all add: elapse_def w1)
  have ids: "p_id (player_heap ?e q) = p_id (player_heap w q)" for q
    by (simp add: e h1)
  have seat2: "find_player ?e (lobby_heap ?e lr) s = Some p"
    using find_player_same_ids[of ?e w, OF ids] seat by (simp add: e)
  have lk2: "lookup_lobby ?e (currentLobby (sockets ?e s)) = Some lr"
    using lk by (simp add: lookup_lobby_def e cong: option.case_cong)
  have before: "now ?e < now w + 3500"
    using early by (simp add: elapse_def w1)
  have r2: "roll_dice s ?e = Inr w2"
    unfolding w2 using lk2 _ _ seat2 by (rule roll_dice_accepted) (simp_all add: e pl turn)
  have l2: "lobby_heap w2 = lobby_heap w" by (simp add: w2 e)
  have h2: "player_heap w2 = (player_heap w1)(p := (player_heap w1 p)
        \<lparr>lastRoll := Some (\<lfloor>random w (Suc (Suc (random_pos w))) * 6\<rfloor> + 1
                   + (\<lfloor>random w (Suc (Suc (Suc (random_pos w)))) * 6\<rfloor> + 1))\<rparr>)"
    unfolding w2 by (simp add: performRoll_player_heap e)
  have others: "player_heap w2 q = player_heap w q" if "q \<noteq> p" for q
    using that by (simp add: h2 h1)
  from two_rolls_timers[OF hb w1 w2] obtain F x1 x2 where
    F: "list_all (\<lambda>e. fst e < ?n) F"
    and t1: "timers w1 = F @ [(?n, now w + 1500, x1), (Suc ?n, now w + 3500, Advance lr)]"
    and t2: "timers w2 = F @ [(?n, now w + 1500, x1), (Suc ?n, now w + 3500, Advance lr),
                               (Suc (Suc ?n), now w + d + 1500, x2),
                               (Suc (Suc (Suc ?n)), now w + d + 3500, Advance lr)]"
    by blast
  have none: "find (\<lambda>e. fst e = t) F = None" if "?n \<le> t" for t
    using F that by (rule find_none_below_id)
  have f1: "find (\<lambda>e. fst e = Suc ?n) (timers w1) = Some (Suc ?n, now w + 3500, Advance lr)"
    by (simp add: t1 find_append none)
  have f2: "find (\<lambda>e. fst e = Suc ?n) (timers w2) = Some (Suc ?n, now w + 3500, Advance lr)"
      "find (\<lambda>e. fst e = Suc (Suc (Suc ?n))) (timers w2)
         = Some (Suc (Suc (Suc ?n)), now w + d + 3500, Advance lr)"
    by (simp_all add: t2 find_append none)
  have t0: "timer (lobby_heap w2 lr) \<noteq> Some (Suc (Suc (Suc ?n)))"
    using hb by (auto simp: l2 handles_below_def split: option.splits)
  have nxt2: "Suc (turnIndex (lobby_heap w2 lr)) < length (turnOrder (lobby_heap w2 lr))"
    using nxt by (simp add: l2)
  note fa = fire_first_advance[OF t2 F t0 nxt2 w3]
  from fa(1) obtain t where l3: "lobby_heap w3 =
      (lobby_heap w)(lr := (lobby_heap w lr)\<lparr>turnIndex := Suc ?i, timer := t\<rparr>)"
    by (auto simp: l2)
  have i3: "turnIndex (lobby_heap w3 lr) = Suc ?i" by (simp add: l3)
  from fire_second_advance[OF fa(3) w4] obtain w' where
    l': "lobby_heap w' = (lobby_heap w3)(lr := (lobby_heap w3 lr)\<lparr>turnIndex := Suc (turnIndex (lobby_heap w3 lr))\<rparr>)"
    and h': "player_heap w' = player_heap w3"
    and e4: "w4 = (if Suc (turnIndex (lobby_heap w3 lr)) < length (turnOrder (lobby_heap w3 lr))
                   then processTurn lr w' else determineWinner lr w')"
    by blast
  have i': "turnIndex (lobby_heap w' lr) = Suc (Suc ?i)" by (simp add: l' l3)
  have hp: "player_heap w' = player_heap w2" by (simp add: h' fa(2))
  have e4': "w4 = (if Suc (Suc ?i) < length (turnOrder (lobby_heap w lr))
                      then processTurn lr w' else determineWinner lr w')"
    using e4 by (simp add: l3)
  have ex: "\<exists>w'. turnIndex (lobby_heap w' lr) = Suc (Suc ?i)
              \<and> player_heap w' = player_heap w2
              \<and> w4 = (if Suc (Suc ?i) < length (turnOrder (lobby_heap w lr))
                      then processTurn lr w' else determineWinner lr w')"
    using i' hp e4' by blast
  have skip: "turnIndex (lobby_heap w4 lr) = Suc (Suc ?i)
             \<and> (\<forall>q. q \<noteq> p \<longrightarrow> player_heap w4 q = player_heap w q)"
    if far: "Suc (Suc ?i) < length (turnOrder (lobby_heap w lr))"
  proof -
    from e4' far have eq: "w4 = processTurn lr w'" by simp
    obtain t' where "lobby_heap (processTurn lr w') = (lobby_heap w')(lr := (lobby_heap w' lr)\<lparr>timer := t'\<rparr>)"
      using processTurn_lobby by blast
    then have "turnIndex (lobby_heap w4 lr) = Suc (Suc ?i)"
      by (simp add: eq i')
    moreover have "player_heap w4 = player_heap w2"
      by (simp add: eq hp)
    ultimately show ?thesis using others by simp
  qed
  have only: "\<forall>a v v'. step a v = Inr v' \<and> \<not> fires_advance a v \<longrightarrow>
             turnIndex (lobby_heap v' lr) = turnIndex (lobby_heap v lr)
             \<or> turnIndex (lobby_heap v' lr) = 0"
  proof (intro allI impI)
    fix a v v'
    assume "step a v = Inr v' \<and> \<not> fires_advance a v"
    then have "step a v = Inr v'" "\<not> fires_advance a v" by simp_all
    then show "turnIndex (lobby_heap v' lr) = turnIndex (lobby_heap v lr)
             \<or> turnIndex (lobby_heap v' lr) = 0"
      by (rule step_turnIndex)
  qed
  have a1: "lastRoll (player_heap w1 p)
           = Some (\<lfloor>random w (random_pos w) * 6\<rfloor> + 1 + (\<lfloor>random w (Suc (random_pos w)) * 6\<rfloor> + 1))"
    by (simp add: h1)
  have a2: "lastRoll (player_heap w2 p)
           = Some (\<lfloor>random w (Suc (Suc (random_pos w))) * 6\<rfloor> + 1
                   + (\<lfloor>random w (Suc (Suc (Suc (random_pos w)))) * 6\<rfloor> + 1))"
    by (simp add: h2)
  show ?thesis
    apply (intro conjI)
    apply (rule r1)
    apply (rule l1)
    apply (rule a1)
    apply (rule f1)
    apply (rule before)
    apply (rule r2)
    apply (rule l2)
    apply (rule a2)
    apply (rule f2(1))
    apply (rule f2(2))
    apply (rule i3)
    apply (rule ex)
    using skip apply blast
    apply (rule only)
    done
qed


lemma trio_facts:
  "lookup_lobby trio_world (currentLobby (sockets trio_world ''sockA'')) = Some 0"
  "state (lobby_heap trio_world 0) = PLAYING"
  "turnIndex (lobby_heap trio_world 0) = 0"
  "turnOrder (lobby_heap trio_world 0) = [''sockA'', ''sockB'', ''sockC'']"
  "find_player trio_world (lobby_heap trio_world 0) ''sockA'' = Some 0"
  "handles_below trio_world 0"
  "next_timer trio_world = 0"
  "lastRoll (player_heap trio_world q) = None"
  by (simp_all add: trio_world_def demo_world_def lookup_lobby_def demo_sockets_def
      demo_lobby_def demo_players_def find_player_def handles_below_def)

theorem second_roll_before_advance_witness:
  "lookup_lobby trio_world (currentLobby (sockets trio_world ''sockA'')) = Some 0
   \<and> state (lobby_heap trio_world 0) = PLAYING
   \<and> nth_opt (turnOrder (lobby_heap trio_world 0)) (turnIndex (lobby_heap trio_world 0)) = Some ''sockA''
   \<and> find_player trio_world (lobby_heap trio_world 0) ''sockA'' = Some 0
   \<and> handles_below trio_world 0
   \<and> roll_dice ''sockA'' trio_world = Inr (performRoll 0 0 False trio_world)
   \<and> roll_dice ''sockA'' (elapse 1000 (performRoll 0 0 False trio_world)) = Inr trio_two_rolls
   \<and> turnIndex (lobby_heap trio_two_rolls 0) = 0
   \<and> turnIndex (lobby_heap (fire_timer 1 trio_two_rolls) 0) = 1
   \<and> turnIndex (lobby_heap trio_advanced 0) = 2
   \<and> lastRoll (player_heap trio_advanced 1) = None"
proof -
  have turn: "nth_opt (turnOrder (lobby_heap trio_world 0)) (turnIndex (lobby_heap trio_world 0)) = Some ''sockA''"
    by (simp add: trio_facts nth_opt_def)
  have d: "(1000::nat) < 3500" by simp
  have nxt: "Suc (turnIndex (lobby_heap trio_world 0)) < length (turnOrder (lobby_heap trio_world 0))"
    by (simp add: trio_facts)
  have w2: "trio_two_rolls = performRoll 0 0 False (elapse 1000 (performRoll 0 0 False trio_world))"
    by (simp add: trio_two_rolls_def)
  have w3: "fire_timer 1 trio_two_rolls = fire_timer (Suc (next_timer trio_world)) trio_two_rolls"
    by (simp add: trio_facts)
  have w4: "trio_advanced = fire_timer (Suc (Suc (Suc (next_timer trio_world)))) (fire_timer 1 trio_two_rolls)"
    by (simp add: trio_advanced_def trio_facts numeral_3_eq_3)
  note t = second_roll_before_advance[OF trio_facts(1) trio_facts(2) turn trio_facts(5) trio_facts(6)
      d nxt refl w2 w3 w4]
  from t have a: "roll_dice ''sockA'' trio_world = Inr (performRoll 0 0 False trio_world)"
      "roll_dice ''sockA'' (elapse 1000 (performRoll 0 0 False trio_world)) = Inr trio_two_rolls"
      "lobby_heap trio_two_rolls = lobby_heap trio_world"
      "turnIndex (lobby_heap (fire_timer 1 trio_two_rolls) 0) = Suc (turnIndex (lobby_heap trio_world 0))"
    by blast+
  have far: "Suc (Suc (turnIndex (lobby_heap trio_world 0))) < length (turnOrder (lobby_heap trio_world 0))"
    by (simp add: trio_facts)
  with t have b: "turnIndex (lobby_heap trio_advanced 0) = Suc (Suc (turnIndex (lobby_heap trio_world 0)))"
      "\<forall>q. q \<noteq> 0 \<longrightarrow> player_heap trio_advanced q = player_heap trio_world q"
    by blast+
  from b(2) have c: "player_heap trio_advanced 1 = player_heap trio_world 1" by simp
  show ?thesis
    by (simp add: trio_facts nth_opt_def a[unfolded One_nat_def] b(1) c[unfolded One_nat_def])
qed

subsection \<open>Timer handles stay below the next handle\<close>

text \<open>The assumption \<open>handles_below\<close> of the statement about two rolls is an invariant of
  the server: a lobby is created with no timer handle, and every step keeps it.\<close>

lemma handles_below_iff:
  "handles_below w lr =
     (list_all (\<lambda>e. fst e < next_timer w) (timers w)
      \<and> (\<forall>t. timer (lobby_heap w lr) = Some t \<longrightarrow> t < next_timer w))"
  by (simp add: handles_below_def split: option.splits)

lemma handles_below_same:
  assumes "handles_below w lr" "timers w' = timers w" "next_timer w' = next_timer w"
    "timer (lobby_heap w' lr) = timer (lobby_heap w lr)"
  shows "handles_below w' lr"
  using assms by (simp add: handles_below_iff)

lemma list_all_mono_less:
  "list_all (\<lambda>e. fst e < (n::nat)) xs \<Longrightarrow> n \<le> m \<Longrightarrow> list_all (\<lambda>e. fst e < m) xs"
  by (induction xs) auto

lemma processTurn_cases:
  "processTurn lr' w = w
   \<or> (\<exists>c ob. processTurn lr' w =
         w\<lparr>outbox := ob,
           timers := filter (\<lambda>e. Some (fst e) \<noteq> timer (lobby_heap w lr')) (timers w)
                      @ [(next_timer w, now w + 10000, c)],
           next_timer := Suc (next_timer w),
           lobby_heap := (lobby_heap w)(lr' := (lobby_heap w lr')\<lparr>timer := Some (next_timer w)\<rparr>)\<rparr>)"
proof (cases "nth_opt (turnOrder (lobby_heap w lr')) (turnIndex (lobby_heap w lr'))")
  case None
  then show ?thesis by (simp add: processTurn_def)
next
  case (Some x)
  show ?thesis
  proof (cases "find_player w (lobby_heap w lr') x")
    case None
    with Some show ?thesis by (simp add: processTurn_def)
  next
    case (Some p)
    have "processTurn lr' w =
         w\<lparr>outbox := outbox w @ [(To_room (lid (lobby_heap w lr')),
                                    Turn_notification x (p_nickname (player_heap w p)))],
           timers := filter (\<lambda>e. Some (fst e) \<noteq> timer (lobby_heap w lr')) (timers w)
                      @ [(next_timer w, now w + 10000, Auto_roll lr' p)],
           next_timer := Suc (next_timer w),
           lobby_heap := (lobby_heap w)(lr' := (lobby_heap w lr')\<lparr>timer := Some (next_timer w)\<rparr>)\<rparr>"
      using \<open>nth_opt (turnOrder (lobby_heap w lr')) (turnIndex (lobby_heap w lr')) = Some x\<close> Some
      by (simp add: processTurn_def Let_def emit_def setTimeout_def set_lobby_def
          clear_lobby_timer_def clearTimeout_def split: option.splits)
    then show ?thesis by blast
  qed
qed

lemma processTurn_handles:
  assumes "handles_below w lr"
  shows "handles_below (processTurn lr' w) lr"
proof -
  from assms have a: "list_all (\<lambda>e. fst e < next_timer w) (timers w)"
    and b: "\<forall>t. timer (lobby_heap w lr) = Some t \<longrightarrow> t < next_timer w"
    by (simp_all add: handles_below_iff)
  have "list_all (\<lambda>e. fst e < Suc (next_timer w)) (timers w)"
    using a by (rule list_all_mono_less) simp
  then have c: "list_all (\<lambda>e. fst e < Suc (next_timer w)) (filter Q (timers w))" for Q
    by (rule list_all_filter)
  have d: "\<forall>t. timer (lobby_heap w lr) = Some t \<longrightarrow> t < Suc (next_timer w)"
    using b by auto
  from processTurn_cases[of lr' w] show ?thesis
  proof
    assume "processTurn lr' w = w"
    then show ?thesis by (simp only: assms)
  next
    assume "\<exists>c ob. processTurn lr' w =
         w\<lparr>outbox := ob,
           timers := filter (\<lambda>e. Some (fst e) \<noteq> timer (lobby_heap w lr')) (timers w)
                      @ [(next_timer w, now w + 10000, c)],
           next_timer := Suc (next_timer w),
           lobby_heap := (lobby_heap w)(lr' := (lobby_heap w lr')\<lparr>timer := Some (next_timer w)\<rparr>)\<rparr>"
    then obtain k ob where eq: "processTurn lr' w =
         w\<lparr>outbox := ob,
           timers := filter (\<lambda>e. Some (fst e) \<noteq> timer (lobby_heap w lr')) (timers w)
                      @ [(next_timer w, now w + 10000, k)],
           next_timer := Suc (next_timer w),
           lobby_heap := (lobby_heap w)(lr' := (lobby_heap w lr')\<lparr>timer := Some (next_timer w)\<rparr>)\<rparr>"
      by blast
    have t: "timers (processTurn lr' w) =
               filter (\<lambda>e. Some (fst e) \<noteq> timer (lobby_heap w lr')) (timers w)
                      @ [(next_timer w, now w + 10000, k)]"
        "next_timer (processTurn lr' w) = Suc (next_timer w)"
        "timer (lobby_heap (processTurn lr' w) lr)
           = (if lr = lr' then Some (next_timer w) else timer (lobby_heap w lr))"
      unfolding eq by simp_all
    have "list_all (\<lambda>e. fst e < next_timer (processTurn lr' w)) (timers (processTurn lr' w))"
      unfolding t using c by simp
    moreover have "\<forall>t. timer (lobby_heap (processTurn lr' w) lr) = Some t
                     \<longrightarrow> t < next_timer (processTurn lr' w)"
      unfolding t using d by auto
    ultimately show ?thesis unfolding handles_below_iff by blast
  qed
qed

lemma startGame_handles:
  assumes "handles_below w lr"
  shows "handles_below (startGame lr' ps w) lr"
proof -
  have "\<exists>v. startGame lr' ps w = processTurn lr' v \<and> timers v = timers w
          \<and> next_timer v = next_timer w \<and> timer (lobby_heap v lr) = timer (lobby_heap w lr)"
    unfolding startGame_def Let_def
    apply (subst shuffle_split)
    apply (simp only: prod.case)
    apply (rule exI, rule conjI, rule refl)
    apply (simp add: update_room_def emit_def set_lobby_def)
    done
  then obtain v where v: "startGame lr' ps w = processTurn lr' v" "timers v = timers w"
      "next_timer v = next_timer w" "timer (lobby_heap v lr) = timer (lobby_heap w lr)"
    by blast
  have "handles_below v lr" using assms v(2-4) by (rule handles_below_same)
  then show ?thesis unfolding v(1) by (rule processTurn_handles)
qed

lemma determineWinner_handles:
  assumes "handles_below w lr"
  shows "handles_below (determineWinner lr' w) lr"
proof (cases "length (winners_of w (lobby_heap w lr')) = 1")
  case True
  then obtain x where "winners_of w (lobby_heap w lr') = [x]"
    by (cases "winners_of w (lobby_heap w lr')") auto
  from determineWinner_single[OF this] assms show ?thesis
    by (simp add: handles_below_iff update_room_def set_lobby_def emit_def)
next
  case False
  have "handles_below (emit (To_room (lid (lobby_heap w lr'))) (Chat_msg SYSTEM Tie_round_2) w) lr"
    using assms by (rule handles_below_same) (simp_all add: emit_def)
  then show ?thesis
    unfolding determineWinner_tie_eq[OF False] by (rule startGame_handles)
qed

lemma advance_handles:
  assumes "handles_below w lr"
  shows "handles_below (advance lr' w) lr"
proof -
  let ?v = "set_lobby lr' ((lobby_heap w lr')\<lparr>turnIndex := Suc (turnIndex (lobby_heap w lr'))\<rparr>) w"
  have "handles_below ?v lr"
    using assms by (rule handles_below_same) (simp_all add: set_lobby_def)
  then show ?thesis
    by (simp add: advance_def Let_def determineWinner_handles processTurn_handles)
qed

lemma performRoll_handles:
  assumes "handles_below w lr"
  shows "handles_below (performRoll lr' p a w) lr"
proof -
  from assms have a: "list_all (\<lambda>e. fst e < next_timer w) (timers w)"
    and b: "\<And>t. timer (lobby_heap w lr) = Some t \<Longrightarrow> t < next_timer w"
    by (simp_all add: handles_below_iff)
  have "list_all (\<lambda>e. fst e < Suc (Suc (next_timer w))) (timers w)"
    using a by (rule list_all_mono_less) simp
  then have c: "list_all (\<lambda>e. fst e < Suc (Suc (next_timer w))) (filter Q (timers w))" for Q
    by (rule list_all_filter)
  have d: "t < Suc (Suc (next_timer w))" if "timer (lobby_heap w lr) = Some t" for t
    using b[OF that] by simp
  show ?thesis
    unfolding handles_below_iff by (simp add: performRoll_timers c d)
qed

lemma fire_timer_handles:
  assumes "handles_below w lr"
  shows "handles_below (fire_timer t w) lr"
proof (cases "find (\<lambda>e. fst e = t) (timers w)")
  case None
  with assms show ?thesis by (simp add: fire_timer_def)
next
  case (Some e)
  let ?v = "w\<lparr>timers := filter (\<lambda>e. fst e \<noteq> t) (timers w), now := max (now w) (fst (snd e))\<rparr>"
  have v: "handles_below ?v lr"
    using assms by (simp add: handles_below_iff list_all_filter)
  have "handles_below (run_cont c ?v) lr" for c
    by (cases c) (simp_all add: run_cont_def performRoll_handles advance_handles v,
        rule handles_below_same[OF v], simp_all add: reveal_def update_room_def emit_def)
  then show ?thesis by (simp add: fire_timer_def Some)
qed

lemma leaveLobby_handles:
  assumes "handles_below w lr"
  shows "handles_below (leaveLobby s w) lr"
  using assms by (rule handles_below_same) simp_all

lemma sit_callback_handles:
  assumes "handles_below w lr"
  shows "handles_below (sit_callback err s lr' w) lr"
  using assms
  by (rule handles_below_same)
    (simp_all add: sit_callback_def Let_def set_lobby_def emit_def update_room_def)

lemma step_handles:
  assumes "handles_below w lr" "step a w = Inr w'"
  shows "handles_below w' lr"
proof (cases a)
  case (Create_lobby s name i)
  have "handles_below (create_lobby s name i w) lr"
    using assms(1) by (simp add: handles_below_iff)
  with assms(2) Create_lobby show ?thesis by (simp add: step_def)
next
  case (Join_lobby s i)
  have "handles_below (joinLobby s i w) lr"
    using assms(1) by (rule handles_below_same) simp_all
  with assms(2) Join_lobby show ?thesis by (simp add: step_def)
next
  case (Get_lobbies s)
  have "handles_below (get_lobbies s w) lr"
    using assms(1) by (rule handles_below_same) simp_all
  with assms(2) Get_lobbies show ?thesis by (simp add: step_def)
next
  case (Host_set_bet s amount)
  have "handles_below (host_set_bet s amount w) lr"
    using assms(1)
    by (rule handles_below_same)
      (simp_all add: host_set_bet_def Let_def set_lobby_def emit_def sitAtTable_def
        split: option.splits)
  with assms(2) Host_set_bet show ?thesis by (simp add: step_def)
next
  case (Join_table s)
  have "handles_below (join_table s w) lr"
    using assms(1)
    by (rule handles_below_same)
      (simp_all add: join_table_def Let_def emit_def sitAtTable_def split: option.splits)
  with assms(2) Join_table show ?thesis by (simp add: step_def)
next
  case (Start_game s)
  have "start_game s w = w \<or> (\<exists>e. start_game s w = emit (To_socket s) e w)
        \<or> (\<exists>lr' ps. start_game s w = startGame lr' ps w)"
    by (auto simp: start_game_def Let_def split: option.splits)
  moreover have "handles_below (emit (To_socket s) e w) lr" for e
    using assms(1) by (rule handles_below_same) (simp_all add: emit_def)
  ultimately have "handles_below (start_game s w) lr"
    using assms(1) startGame_handles[OF assms(1)] by (elim disjE exE) simp_all
  with assms(2) Start_game show ?thesis by (simp add: step_def)
next
  case (Roll_dice s)
  with assms show ?thesis
    by (auto simp: step_def roll_dice_def Let_def performRoll_handles
        split: option.splits if_splits)
next
  case (Leave_lobby s)
  have "handles_below (emit (To_socket s) e w) lr" for e
    using assms(1) by (rule handles_below_same) (simp_all add: emit_def)
  then have "handles_below (leave_lobby s w) lr"
    by (simp add: leave_lobby_def leaveLobby_handles[OF assms(1)] split: option.splits)
  with assms(2) Leave_lobby show ?thesis by (simp add: step_def)
next
  case (Disconnect s)
  let ?v = "w\<lparr>sockets := (sockets w)(s := (sockets w s)\<lparr>connected := False\<rparr>)\<rparr>"
  have "handles_below ?v lr" using assms(1) by (rule handles_below_same) simp_all
  then have "handles_below (disconnect s w) lr"
    unfolding disconnect_def by (rule leaveLobby_handles)
  with assms(2) Disconnect show ?thesis by (simp add: step_def)
next
  case (Fire t)
  with assms show ?thesis by (auto simp: step_def fire_timer_handles)
next
  case (Db_complete k err)
  show ?thesis
  proof (cases "nth_opt (pending_db w) k")
    case None
    with assms Db_complete show ?thesis by (auto simp: step_def db_complete_def)
  next
    case (Some e)
    let ?v = "w\<lparr>pending_db := take k (pending_db w) @ drop (Suc k) (pending_db w),
               db := (if err then db w else apply_db_op (fst e) (db w))\<rparr>"
    have v: "handles_below ?v lr" using assms(1) by (rule handles_below_same) simp_all
    have "handles_below (run_db_cont err c ?v) lr" for c
    proof (cases c)
      case (Sit_cb s' lr')
      then show ?thesis by (simp add: run_db_cont_def sit_callback_handles[OF v])
    next
      case (Win_cb wid amount)
      have "handles_below (win_callback wid amount ?v) lr"
        using v by (rule handles_below_same) (simp_all add: win_callback_def Let_def emit_def)
      with Win_cb show ?thesis by (simp add: run_db_cont_def)
    qed
    with assms(2) Db_complete Some show ?thesis by (auto simp: step_def db_complete_def)
  qed
next
  case (Elapse d)
  have "handles_below (elapse d w) lr"
    using assms(1) by (rule handles_below_same) (simp_all add: elapse_def)
  with assms(2) Elapse show ?thesis by (simp add: step_def)
qed

end
